theory Spec2Isabelle
  imports Complex_Main "HOL-Library.Stream" "HOL-Library.AList"
begin

section \<open>Data model (weapons.py, mech.py)\<close>

text \<open>
  Python exceptions that the modelled code can raise are values of \<open>error\<close>; a function
  that can raise returns \<open>error + 'a\<close> with \<open>Inl\<close> for the exception.
\<close>

datatype error = KeyError | TypeError | IndexError | ValueError

text \<open>
  \<open>Weapon\<close> is the frozen dataclass of weapons.py. Its \<open>tonnage\<close> field (a float that no
  modelled function reads) is left out. Python integers are unbounded, hence \<open>int\<close>.
\<close>

record Weapon =
  name :: string
  damage :: int
  heat :: int
  min_range :: int
  short_range :: int
  medium_range :: int
  long_range :: int
  ammo_per_ton :: "int option"
  cluster_size :: int
  damage_per_missile :: int
  is_streak :: bool
  is_ultra :: bool
  is_lb_x :: bool
  target_heat :: int
  crit_slots :: int

record MountedWeapon =
  weapon :: Weapon
  location :: string
  ammo_remaining :: "int option"
  destroyed :: bool

record Location =
  name :: string
  max_armor :: int
  current_armor :: int
  rear_max_armor :: int
  rear_current_armor :: int
  max_structure :: int
  current_structure :: int
  destroyed :: bool
  crittable_slots :: "string list"
  has_case :: bool

text \<open>
  \<open>Mech.locations\<close> is a Python dict from location id to \<open>Location\<close>: an association
  list read with \<open>map_of\<close> and written with \<open>AList.update\<close>. The \<open>metadata\<close> block is
  left out (no modelled function reads it).
\<close>

record Mech =
  name :: string
  tonnage :: int
  walk_mp :: int
  run_mp :: int
  jump_mp :: int
  gunnery :: int
  piloting :: int
  locations :: "(string \<times> Location) list"
  weapons :: "MountedWeapon list"
  heat_sinks :: int
  double_heat_sinks :: bool
  engine_type :: string
  current_heat :: int
  active :: bool
  movement_mode :: string
  hexes_moved :: int

section \<open>Weapon catalog (weapons.py)\<close>

definition SMALL_LASER :: Weapon where
  "SMALL_LASER = \<lparr>Weapon.name = ''Small Laser'', damage = 3, heat = 1,
     min_range = 0, short_range = 1, medium_range = 2, long_range = 3,
     ammo_per_ton = None, cluster_size = 0, damage_per_missile = 0,
     is_streak = False, is_ultra = False, is_lb_x = False, target_heat = 0,
     crit_slots = 1\<rparr>"

definition MEDIUM_LASER :: Weapon where
  "MEDIUM_LASER = \<lparr>Weapon.name = ''Medium Laser'', damage = 5, heat = 3,
     min_range = 0, short_range = 3, medium_range = 6, long_range = 9,
     ammo_per_ton = None, cluster_size = 0, damage_per_missile = 0,
     is_streak = False, is_ultra = False, is_lb_x = False, target_heat = 0,
     crit_slots = 1\<rparr>"

definition LARGE_LASER :: Weapon where
  "LARGE_LASER = \<lparr>Weapon.name = ''Large Laser'', damage = 8, heat = 8,
     min_range = 0, short_range = 5, medium_range = 10, long_range = 15,
     ammo_per_ton = None, cluster_size = 0, damage_per_missile = 0,
     is_streak = False, is_ultra = False, is_lb_x = False, target_heat = 0,
     crit_slots = 2\<rparr>"

definition PPC :: Weapon where
  "PPC = \<lparr>Weapon.name = ''PPC'', damage = 10, heat = 10,
     min_range = 3, short_range = 6, medium_range = 12, long_range = 18,
     ammo_per_ton = None, cluster_size = 0, damage_per_missile = 0,
     is_streak = False, is_ultra = False, is_lb_x = False, target_heat = 0,
     crit_slots = 3\<rparr>"

definition ER_LARGE_LASER :: Weapon where
  "ER_LARGE_LASER = \<lparr>Weapon.name = ''ER Large Laser'', damage = 8, heat = 12,
     min_range = 0, short_range = 7, medium_range = 14, long_range = 19,
     ammo_per_ton = None, cluster_size = 0, damage_per_missile = 0,
     is_streak = False, is_ultra = False, is_lb_x = False, target_heat = 0,
     crit_slots = 2\<rparr>"

definition ER_PPC :: Weapon where
  "ER_PPC = \<lparr>Weapon.name = ''ER PPC'', damage = 10, heat = 15,
     min_range = 0, short_range = 7, medium_range = 14, long_range = 23,
     ammo_per_ton = None, cluster_size = 0, damage_per_missile = 0,
     is_streak = False, is_ultra = False, is_lb_x = False, target_heat = 0,
     crit_slots = 3\<rparr>"

definition SMALL_PULSE_LASER :: Weapon where
  "SMALL_PULSE_LASER = \<lparr>Weapon.name = ''Small Pulse Laser'', damage = 3, heat = 2,
     min_range = 0, short_range = 1, medium_range = 2, long_range = 3,
     ammo_per_ton = None, cluster_size = 0, damage_per_missile = 0,
     is_streak = False, is_ultra = False, is_lb_x = False, target_heat = 0,
     crit_slots = 1\<rparr>"

definition MEDIUM_PULSE_LASER :: Weapon where
  "MEDIUM_PULSE_LASER = \<lparr>Weapon.name = ''Medium Pulse Laser'', damage = 6, heat = 4,
     min_range = 0, short_range = 2, medium_range = 4, long_range = 6,
     ammo_per_ton = None, cluster_size = 0, damage_per_missile = 0,
     is_streak = False, is_ultra = False, is_lb_x = False, target_heat = 0,
     crit_slots = 1\<rparr>"

definition LARGE_PULSE_LASER :: Weapon where
  "LARGE_PULSE_LASER = \<lparr>Weapon.name = ''Large Pulse Laser'', damage = 9, heat = 10,
     min_range = 0, short_range = 3, medium_range = 7, long_range = 10,
     ammo_per_ton = None, cluster_size = 0, damage_per_missile = 0,
     is_streak = False, is_ultra = False, is_lb_x = False, target_heat = 0,
     crit_slots = 2\<rparr>"

definition FLAMER :: Weapon where
  "FLAMER = \<lparr>Weapon.name = ''Flamer'', damage = 2, heat = 3,
     min_range = 0, short_range = 1, medium_range = 2, long_range = 3,
     ammo_per_ton = None, cluster_size = 0, damage_per_missile = 0,
     is_streak = False, is_ultra = False, is_lb_x = False, target_heat = 2,
     crit_slots = 1\<rparr>"

definition AC2 :: Weapon where
  "AC2 = \<lparr>Weapon.name = ''AC/2'', damage = 2, heat = 1,
     min_range = 4, short_range = 8, medium_range = 16, long_range = 24,
     ammo_per_ton = Some 45, cluster_size = 0, damage_per_missile = 0,
     is_streak = False, is_ultra = False, is_lb_x = False, target_heat = 0,
     crit_slots = 1\<rparr>"

definition AC5 :: Weapon where
  "AC5 = \<lparr>Weapon.name = ''AC/5'', damage = 5, heat = 1,
     min_range = 3, short_range = 6, medium_range = 12, long_range = 18,
     ammo_per_ton = Some 20, cluster_size = 0, damage_per_missile = 0,
     is_streak = False, is_ultra = False, is_lb_x = False, target_heat = 0,
     crit_slots = 4\<rparr>"

definition AC10 :: Weapon where
  "AC10 = \<lparr>Weapon.name = ''AC/10'', damage = 10, heat = 3,
     min_range = 0, short_range = 5, medium_range = 10, long_range = 15,
     ammo_per_ton = Some 10, cluster_size = 0, damage_per_missile = 0,
     is_streak = False, is_ultra = False, is_lb_x = False, target_heat = 0,
     crit_slots = 7\<rparr>"

definition AC20 :: Weapon where
  "AC20 = \<lparr>Weapon.name = ''AC/20'', damage = 20, heat = 7,
     min_range = 0, short_range = 3, medium_range = 6, long_range = 9,
     ammo_per_ton = Some 5, cluster_size = 0, damage_per_missile = 0,
     is_streak = False, is_ultra = False, is_lb_x = False, target_heat = 0,
     crit_slots = 10\<rparr>"

definition ULTRA_AC5 :: Weapon where
  "ULTRA_AC5 = \<lparr>Weapon.name = ''Ultra AC/5'', damage = 5, heat = 1,
     min_range = 2, short_range = 6, medium_range = 12, long_range = 18,
     ammo_per_ton = Some 20, cluster_size = 0, damage_per_missile = 0,
     is_streak = False, is_ultra = True, is_lb_x = False, target_heat = 0,
     crit_slots = 5\<rparr>"

definition LBX_AC10 :: Weapon where
  "LBX_AC10 = \<lparr>Weapon.name = ''LB 10-X AC'', damage = 10, heat = 2,
     min_range = 0, short_range = 6, medium_range = 12, long_range = 18,
     ammo_per_ton = Some 10, cluster_size = 10, damage_per_missile = 1,
     is_streak = False, is_ultra = False, is_lb_x = True, target_heat = 0,
     crit_slots = 6\<rparr>"

definition MACHINE_GUN :: Weapon where
  "MACHINE_GUN = \<lparr>Weapon.name = ''Machine Gun'', damage = 2, heat = 0,
     min_range = 0, short_range = 1, medium_range = 2, long_range = 3,
     ammo_per_ton = Some 200, cluster_size = 0, damage_per_missile = 0,
     is_streak = False, is_ultra = False, is_lb_x = False, target_heat = 0,
     crit_slots = 1\<rparr>"

definition SRM2 :: Weapon where
  "SRM2 = \<lparr>Weapon.name = ''SRM-2'', damage = 2, heat = 2,
     min_range = 0, short_range = 3, medium_range = 6, long_range = 9,
     ammo_per_ton = Some 50, cluster_size = 2, damage_per_missile = 2,
     is_streak = False, is_ultra = False, is_lb_x = False, target_heat = 0,
     crit_slots = 1\<rparr>"

definition SRM4 :: Weapon where
  "SRM4 = \<lparr>Weapon.name = ''SRM-4'', damage = 2, heat = 3,
     min_range = 0, short_range = 3, medium_range = 6, long_range = 9,
     ammo_per_ton = Some 25, cluster_size = 4, damage_per_missile = 2,
     is_streak = False, is_ultra = False, is_lb_x = False, target_heat = 0,
     crit_slots = 1\<rparr>"

definition SRM6 :: Weapon where
  "SRM6 = \<lparr>Weapon.name = ''SRM-6'', damage = 2, heat = 4,
     min_range = 0, short_range = 3, medium_range = 6, long_range = 9,
     ammo_per_ton = Some 15, cluster_size = 6, damage_per_missile = 2,
     is_streak = False, is_ultra = False, is_lb_x = False, target_heat = 0,
     crit_slots = 2\<rparr>"

definition LRM5 :: Weapon where
  "LRM5 = \<lparr>Weapon.name = ''LRM-5'', damage = 1, heat = 2,
     min_range = 6, short_range = 7, medium_range = 14, long_range = 21,
     ammo_per_ton = Some 24, cluster_size = 5, damage_per_missile = 1,
     is_streak = False, is_ultra = False, is_lb_x = False, target_heat = 0,
     crit_slots = 1\<rparr>"

definition LRM10 :: Weapon where
  "LRM10 = \<lparr>Weapon.name = ''LRM-10'', damage = 1, heat = 4,
     min_range = 6, short_range = 7, medium_range = 14, long_range = 21,
     ammo_per_ton = Some 12, cluster_size = 10, damage_per_missile = 1,
     is_streak = False, is_ultra = False, is_lb_x = False, target_heat = 0,
     crit_slots = 2\<rparr>"

definition LRM15 :: Weapon where
  "LRM15 = \<lparr>Weapon.name = ''LRM-15'', damage = 1, heat = 5,
     min_range = 6, short_range = 7, medium_range = 14, long_range = 21,
     ammo_per_ton = Some 8, cluster_size = 15, damage_per_missile = 1,
     is_streak = False, is_ultra = False, is_lb_x = False, target_heat = 0,
     crit_slots = 3\<rparr>"

definition LRM20 :: Weapon where
  "LRM20 = \<lparr>Weapon.name = ''LRM-20'', damage = 1, heat = 6,
     min_range = 6, short_range = 7, medium_range = 14, long_range = 21,
     ammo_per_ton = Some 6, cluster_size = 20, damage_per_missile = 1,
     is_streak = False, is_ultra = False, is_lb_x = False, target_heat = 0,
     crit_slots = 5\<rparr>"

definition STREAK_SRM2 :: Weapon where
  "STREAK_SRM2 = \<lparr>Weapon.name = ''Streak SRM-2'', damage = 2, heat = 2,
     min_range = 0, short_range = 3, medium_range = 6, long_range = 9,
     ammo_per_ton = Some 50, cluster_size = 2, damage_per_missile = 2,
     is_streak = True, is_ultra = False, is_lb_x = False, target_heat = 0,
     crit_slots = 1\<rparr>"

definition STREAK_SRM4 :: Weapon where
  "STREAK_SRM4 = \<lparr>Weapon.name = ''Streak SRM-4'', damage = 2, heat = 3,
     min_range = 0, short_range = 3, medium_range = 6, long_range = 9,
     ammo_per_ton = Some 25, cluster_size = 4, damage_per_missile = 2,
     is_streak = True, is_ultra = False, is_lb_x = False, target_heat = 0,
     crit_slots = 1\<rparr>"

definition STREAK_SRM6 :: Weapon where
  "STREAK_SRM6 = \<lparr>Weapon.name = ''Streak SRM-6'', damage = 2, heat = 4,
     min_range = 0, short_range = 3, medium_range = 6, long_range = 9,
     ammo_per_ton = Some 15, cluster_size = 6, damage_per_missile = 2,
     is_streak = True, is_ultra = False, is_lb_x = False, target_heat = 0,
     crit_slots = 2\<rparr>"

text \<open>\<open>WEAPON_DB\<close> is built in this order; all names are distinct.\<close>

definition WEAPON_DB :: "(string \<times> Weapon) list" where
  "WEAPON_DB = map (\<lambda>w. (Weapon.name w, w))
     [SMALL_LASER, MEDIUM_LASER, LARGE_LASER, PPC, ER_LARGE_LASER,
      ER_PPC, SMALL_PULSE_LASER, MEDIUM_PULSE_LASER, LARGE_PULSE_LASER, FLAMER,
      AC2, AC5, AC10, AC20, ULTRA_AC5,
      LBX_AC10, MACHINE_GUN, SRM2, SRM4, SRM6,
      LRM5, LRM10, LRM15, LRM20, STREAK_SRM2,
      STREAK_SRM4, STREAK_SRM6]"

section \<open>Range modifier (combat.py)\<close>

text \<open>\<open>None\<close> is Python's \<open>None\<close>: the shot is impossible.\<close>

definition get_range_modifier :: "MountedWeapon \<Rightarrow> int \<Rightarrow> int option" where
  "get_range_modifier mw distance =
     (let w = weapon mw in
      if distance < min_range w then Some (min_range w - distance)
      else if distance \<le> short_range w then Some 0
      else if distance \<le> medium_range w then Some 2
      else if distance \<le> long_range w then Some 4
      else None)"

section \<open>Heat movement penalty (heat.py)\<close>

text \<open>
  The function returns 4 as soon as the heat reaches 9; the cumulative table below that
  early return is reached only for heat below 9.
\<close>

definition get_heat_mp_penalty :: "int \<Rightarrow> int" where
  "get_heat_mp_penalty h =
     (if h \<ge> 9 then 4
      else
        (let penalty = 0;
             penalty = (if h \<ge> 5 then penalty + 1 else penalty);
             penalty = (if h \<ge> 10 then penalty + 1 else penalty);
             penalty = (if h \<ge> 15 then penalty + 1 else penalty);
             penalty = (if h \<ge> 20 then penalty + 1 else penalty);
             penalty = (if h \<ge> 25 then penalty + 1 else penalty)
         in penalty))"

section \<open>Randomness and dice (tables.py)\<close>

text \<open>
  The random source is an infinite stream of draws; every call of \<open>random.randint\<close> or
  \<open>random.choice\<close> consumes one draw and returns the rest of the stream.
  \<open>randint a b\<close> is only called with \<open>a \<le> b\<close>: with the constants 1 and 6, and with 0
  and the last index of a non-empty slot list.
\<close>

type_synonym rng = "nat stream"

definition randint :: "int \<Rightarrow> int \<Rightarrow> rng \<Rightarrow> int \<times> rng" where
  "randint a b r = (a + int (shd r) mod (b - a + 1), stl r)"

definition roll_2d6 :: "rng \<Rightarrow> int \<times> rng" where
  "roll_2d6 r = (let (a, r1) = randint 1 6 r; (b, r2) = randint 1 6 r1 in (a + b, r2))"

definition CRIT_TABLE :: "(int \<times> int) list" where
  "CRIT_TABLE = [(2, 0), (3, 0), (4, 0), (5, 0), (6, 0), (7, 0),
                 (8, 1), (9, 1), (10, 2), (11, 2), (12, 3)]"

definition roll_critical_hits :: "rng \<Rightarrow> error + int \<times> rng" where
  "roll_critical_hits r =
     (let (roll, r') = roll_2d6 r in
      case map_of CRIT_TABLE roll of
        None \<Rightarrow> Inl KeyError
      | Some n \<Rightarrow> Inr (n, r'))"

definition TRANSFER_MAP :: "(string \<times> string option) list" where
  "TRANSFER_MAP = [(''HD'', None), (''CT'', None), (''LT'', Some ''CT''), (''RT'', Some ''CT''),
                   (''LA'', Some ''LT''), (''RA'', Some ''RT''), (''LL'', Some ''LT''),
                   (''RL'', Some ''RT'')]"

definition REAR_ARMOR_LOCATIONS :: "string set" where
  "REAR_ARMOR_LOCATIONS = {''CT'', ''LT'', ''RT''}"

section \<open>Unit state and damage pipeline (mech.py)\<close>

text \<open>\<open>TRANSFER_MAP.get(self.name)\<close>: a missing key and a \<open>None\<close> entry both give \<open>None\<close>.\<close>

definition transfer_to :: "Location \<Rightarrow> string option" where
  "transfer_to loc = (case map_of TRANSFER_MAP (Location.name loc) of None \<Rightarrow> None | Some t \<Rightarrow> t)"

definition loc_destroyed :: "Mech \<Rightarrow> string \<Rightarrow> bool" where
  "loc_destroyed m k = (case map_of (locations m) k of None \<Rightarrow> False | Some l \<Rightarrow> Location.destroyed l)"

definition is_dead :: "Mech \<Rightarrow> bool" where
  "is_dead m =
     (if \<not> active m then True
      else if loc_destroyed m ''CT'' then True
      else if loc_destroyed m ''HD'' then True
      else if engine_type m = ''xl'' then
        (if loc_destroyed m ''LT'' \<or> loc_destroyed m ''RT'' then True else False)
      else False)"

definition total_armor :: "Mech \<Rightarrow> int" where
  "total_armor m = (\<Sum>(k, loc) \<leftarrow> locations m. current_armor loc + rear_current_armor loc)"

definition total_structure :: "Mech \<Rightarrow> int" where
  "total_structure m = (\<Sum>(k, loc) \<leftarrow> locations m. current_structure loc)"

definition total_hp :: "Mech \<Rightarrow> int" where
  "total_hp m = total_armor m + total_structure m"

definition max_total_hp :: "Mech \<Rightarrow> int" where
  "max_total_hp m = (\<Sum>(k, loc) \<leftarrow> locations m. max_armor loc + rear_max_armor loc + max_structure loc)"

definition set_location :: "string \<Rightarrow> Location \<Rightarrow> Mech \<Rightarrow> Mech" where
  "set_location k loc m = m\<lparr>locations := AList.update k loc (locations m)\<rparr>"

text \<open>\<open>for mw in self.weapons: if mw.location == location_id: mw.destroyed = True\<close>\<close>

definition destroy_weapons_in :: "string \<Rightarrow> MountedWeapon list \<Rightarrow> MountedWeapon list" where
  "destroy_weapons_in location_id ws =
     map (\<lambda>mw. if location mw = location_id then mw\<lparr>MountedWeapon.destroyed := True\<rparr> else mw) ws"

text \<open>
  The armor step of \<open>apply_damage\<close>: the rear pool when \<open>is_rear\<close> and the location has
  rear armor, the front pool otherwise; a pool is touched only if it is positive.
  Returns the location and the damage left.
\<close>

definition absorb_armor :: "string \<Rightarrow> bool \<Rightarrow> Location \<Rightarrow> int \<Rightarrow> Location \<times> int" where
  "absorb_armor location_id is_rear loc dmg =
     (if is_rear \<and> location_id \<in> REAR_ARMOR_LOCATIONS then
        (if rear_current_armor loc > 0 then
           (let absorbed = min (rear_current_armor loc) dmg in
            (loc\<lparr>rear_current_armor := rear_current_armor loc - absorbed\<rparr>, dmg - absorbed))
         else (loc, dmg))
      else
        (if current_armor loc > 0 then
           (let absorbed = min (current_armor loc) dmg in
            (loc\<lparr>current_armor := current_armor loc - absorbed\<rparr>, dmg - absorbed))
         else (loc, dmg)))"

definition available_slots :: "Location \<Rightarrow> string list" where
  "available_slots loc = filter (\<lambda>s. s \<noteq> ''DESTROYED'') (crittable_slots loc)"

text \<open>
  The retry loop of \<open>_apply_crits\<close>: draw an index over the whole slot list and draw
  again while the slot drawn is already destroyed. The loop has no bound of its own, so
  it is a partial function: \<open>None\<close> is a run that never leaves the loop.
\<close>

partial_function (option) pick_slot :: "string list \<Rightarrow> rng \<Rightarrow> (nat \<times> rng) option" where
  "pick_slot slots r =
     (let (slot_idx, r') = randint 0 (int (length slots) - 1) r in
      if slots ! nat slot_idx = ''DESTROYED'' then pick_slot slots r'
      else Some (nat slot_idx, r'))"

text \<open>
  The weapon loop of \<open>_apply_crits\<close>: the first mounted weapon of the location whose name
  is the item hit and that is not yet destroyed is destroyed; if it occupies more than
  one slot, every slot carrying its name is destroyed with it. The loop stops there.
\<close>

fun crit_weapon :: "string \<Rightarrow> string \<Rightarrow> MountedWeapon list \<Rightarrow> string list
    \<Rightarrow> MountedWeapon list \<times> string list" where
  "crit_weapon location_id hit_item [] slots = ([], slots)"
| "crit_weapon location_id hit_item (mw # ws) slots =
     (if location mw = location_id \<and> Weapon.name (weapon mw) = hit_item
         \<and> \<not> MountedWeapon.destroyed mw
      then (mw\<lparr>MountedWeapon.destroyed := True\<rparr> # ws,
            if crit_slots (weapon mw) > 1
            then map (\<lambda>s. if s = hit_item then ''DESTROYED'' else s) slots
            else slots)
      else (let (ws', slots') = crit_weapon location_id hit_item ws slots in (mw # ws', slots')))"

text \<open>
  The search loop of \<open>_ammo_explosion\<close>: the first weapon of the location that still has
  ammo and whose ammo slot name matches gives the explosion damage and loses its ammo;
  0 if there is none.
\<close>

fun find_ammo :: "string \<Rightarrow> string \<Rightarrow> MountedWeapon list \<Rightarrow> int \<times> MountedWeapon list" where
  "find_ammo location_id ammo_slot [] = (0, [])"
| "find_ammo location_id ammo_slot (mw # ws) =
     (case ammo_remaining mw of
        Some a \<Rightarrow>
          (if location mw = location_id \<and> a > 0 \<and> ammo_slot = ''Ammo '' @ Weapon.name (weapon mw)
           then ((if cluster_size (weapon mw) > 0
                  then a * damage_per_missile (weapon mw) * cluster_size (weapon mw)
                  else a * damage (weapon mw)),
                 mw\<lparr>ammo_remaining := Some 0\<rparr> # ws)
           else (let (d, ws') = find_ammo location_id ammo_slot ws in (d, mw # ws')))
      | None \<Rightarrow> (let (d, ws') = find_ammo location_id ammo_slot ws in (d, mw # ws')))"

text \<open>
  Lines 178-184 of mech.py: the location is marked destroyed and so is every weapon
  mounted there.
\<close>

definition mark_destroyed :: "string \<Rightarrow> Location \<Rightarrow> Mech \<Rightarrow> Mech" where
  "mark_destroyed location_id loc m =
     (set_location location_id (loc\<lparr>Location.destroyed := True\<rparr>) m)
     \<lparr>weapons := destroy_weapons_in location_id (weapons m)\<rparr>"

text \<open>
  Lines 221-234: the slot drawn is overwritten with the destroyed marker, then the
  weapon loop runs on the item that was hit.
\<close>

definition crit_hit :: "string \<Rightarrow> Location \<Rightarrow> nat \<Rightarrow> Mech \<Rightarrow> Mech" where
  "crit_hit location_id loc slot_idx m =
     (let hit_item = crittable_slots loc ! slot_idx;
          slots1 = (crittable_slots loc)[slot_idx := ''DESTROYED''];
          (ws1, slots2) = crit_weapon location_id hit_item (weapons m) slots1
      in (set_location location_id (loc\<lparr>crittable_slots := slots2\<rparr>) m)\<lparr>weapons := ws1\<rparr>)"

text \<open>
  Lines 281-289: an explosion contained by CASE zeroes the location's structure and both
  armor pools, marks it destroyed and destroys the weapons mounted there. The unit's
  \<open>active\<close> flag is not written.
\<close>

definition contain_explosion :: "string \<Rightarrow> Location \<Rightarrow> Mech \<Rightarrow> Mech" where
  "contain_explosion location_id loc m =
     (set_location location_id
        (loc\<lparr>current_structure := 0, current_armor := 0, rear_current_armor := 0,
             Location.destroyed := True\<rparr>) m)
     \<lparr>weapons := destroy_weapons_in location_id (weapons m)\<rparr>"

text \<open>
  \<open>apply_damage\<close>, \<open>_apply_crits\<close> and \<open>_ammo_explosion\<close> call each other, and the retry
  loop inside may not return, so the three methods are one partial function over the
  method called. \<open>CritLoop location_id n\<close> is the \<open>for _ in range(num_crits)\<close> loop of
  \<open>_apply_crits\<close> with \<open>n\<close> iterations left. The result is \<open>None\<close> when the call does not
  return, \<open>Some (Inl e)\<close> when it raises, \<open>Some (Inr (m, r))\<close> with the mutated unit and
  the rest of the random stream otherwise. The event strings the methods return are
  log text only and are left out, as is the engine-hit branch of \<open>_apply_crits\<close>, which
  computes a count and drops it.

  A \<open>Location\<close> object is shared by reference in the source, so after a nested call the
  location is read again from the unit (the lookup cannot fail there: no method removes
  a key).
\<close>

datatype call =
    ApplyDamage string int bool
  | ApplyCrits string int
  | CritLoop string nat
  | AmmoExplosion string string

type_synonym outcome = "(error + Mech \<times> rng) option"

definition and_then :: "outcome \<Rightarrow> (Mech \<Rightarrow> rng \<Rightarrow> outcome) \<Rightarrow> outcome" where
  "and_then x f = Option.bind x (\<lambda>res. case res of Inl e \<Rightarrow> Some (Inl e) | Inr (m, r) \<Rightarrow> f m r)"

lemma and_then_mono [partial_function_mono]:
  assumes "mono_option B" and "\<And>m r. mono_option (\<lambda>f. C m r f)"
  shows "mono_option (\<lambda>f. and_then (B f) (\<lambda>m r. C m r f))"
proof -
  have "mono_option (\<lambda>f. case res of Inl e \<Rightarrow> Some (Inl e) | Inr (m, r) \<Rightarrow> C m r f)" for res
    by (cases res) (auto simp: assms(2) option.const_mono)
  then show ?thesis
    unfolding and_then_def by (intro bind_mono assms(1))
qed

partial_function (option) run :: "call \<Rightarrow> Mech \<Rightarrow> rng \<Rightarrow> outcome" where
  "run c m r =
    (case c of
      ApplyDamage location_id dmg is_rear \<Rightarrow>
        (case map_of (locations m) location_id of
          None \<Rightarrow> Some (Inl KeyError)
        | Some loc \<Rightarrow>
            if Location.destroyed loc then
              (case transfer_to loc of
                Some transfer \<Rightarrow> run (ApplyDamage transfer dmg False) m r
              | None \<Rightarrow> Some (Inr (m, r)))
            else
              (let (loc1, dmg1) = absorb_armor location_id is_rear loc dmg in
               if dmg1 \<le> 0 then Some (Inr (set_location location_id loc1 m, r))
               else
                 (let structure_absorbed = min (current_structure loc1) dmg1;
                      loc2 = loc1\<lparr>current_structure := current_structure loc1 - structure_absorbed\<rparr>;
                      dmg2 = dmg1 - structure_absorbed;
                      m2 = set_location location_id loc2 m
                  in and_then
                       (if structure_absorbed > 0 \<and> current_structure loc2 > 0 then
                          (case roll_critical_hits r of
                            Inl e \<Rightarrow> Some (Inl e)
                          | Inr (num_crits, r') \<Rightarrow>
                              if num_crits > 0 then run (ApplyCrits location_id num_crits) m2 r'
                              else Some (Inr (m2, r')))
                        else Some (Inr (m2, r)))
                       (\<lambda>m3 r3.
                          case map_of (locations m3) location_id of
                            None \<Rightarrow> Some (Inl KeyError)
                          | Some loc3 \<Rightarrow>
                              if current_structure loc3 \<le> 0 then
                                (let m4 = mark_destroyed location_id loc3 m3
                                 in if is_dead m4 then Some (Inr (m4\<lparr>active := False\<rparr>, r3))
                                    else if dmg2 > 0 then
                                      (case transfer_to loc3 of
                                        Some transfer \<Rightarrow> run (ApplyDamage transfer dmg2 False) m4 r3
                                      | None \<Rightarrow> Some (Inr (m4, r3)))
                                    else Some (Inr (m4, r3)))
                              else Some (Inr (m3, r3))))))
    | ApplyCrits location_id num_crits \<Rightarrow>
        (case map_of (locations m) location_id of
          None \<Rightarrow> Some (Inl KeyError)
        | Some loc \<Rightarrow>
            if available_slots loc = [] then Some (Inr (m, r))
            else run (CritLoop location_id (nat num_crits)) m r)
    | CritLoop location_id n \<Rightarrow>
        (case n of
          0 \<Rightarrow> Some (Inr (m, r))
        | Suc k \<Rightarrow>
            (case map_of (locations m) location_id of
              None \<Rightarrow> Some (Inl KeyError)
            | Some loc \<Rightarrow>
                if available_slots loc = [] then Some (Inr (m, r))
                else
                  Option.bind (pick_slot (crittable_slots loc) r) (\<lambda>(slot_idx, r1).
                    let hit_item = crittable_slots loc ! slot_idx;
                        m1 = crit_hit location_id loc slot_idx m
                    in and_then
                         (if take 4 hit_item = ''Ammo''
                          then run (AmmoExplosion location_id hit_item) m1 r1
                          else Some (Inr (m1, r1)))
                         (\<lambda>m2 r2. run (CritLoop location_id k) m2 r2))))
    | AmmoExplosion location_id ammo_slot \<Rightarrow>
        (case map_of (locations m) location_id of
          None \<Rightarrow> Some (Inl KeyError)
        | Some loc \<Rightarrow>
            (let (found, ws1) = find_ammo location_id ammo_slot (weapons m);
                 ammo_damage = (if found \<le> 0 then 20 else found);
                 m1 = m\<lparr>weapons := ws1\<rparr>
             in if has_case loc then Some (Inr (contain_explosion location_id loc m1, r))
                else run (ApplyDamage location_id ammo_damage False) m1 r)))"

definition apply_damage :: "string \<Rightarrow> int \<Rightarrow> bool \<Rightarrow> Mech \<Rightarrow> rng \<Rightarrow> outcome" where
  "apply_damage location_id dmg is_rear = run (ApplyDamage location_id dmg is_rear)"

definition apply_crits :: "string \<Rightarrow> int \<Rightarrow> Mech \<Rightarrow> rng \<Rightarrow> outcome" where
  "apply_crits location_id num_crits = run (ApplyCrits location_id num_crits)"

definition ammo_explosion :: "string \<Rightarrow> string \<Rightarrow> Mech \<Rightarrow> rng \<Rightarrow> outcome" where
  "ammo_explosion location_id ammo_slot = run (AmmoExplosion location_id ammo_slot)"

text \<open>
  A weapon's range bands are ordered when minimum, short, medium and long range do
  not decrease in that order, as for every weapon of the catalog.
\<close>

definition range_bands_ordered :: "Weapon \<Rightarrow> bool" where
  "range_bands_ordered w \<longleftrightarrow>
     min_range w \<le> short_range w \<and> short_range w \<le> medium_range w \<and> medium_range w \<le> long_range w"

text \<open>\<open>MountedWeapon(weapon, location)\<close>: a full ammunition load, not destroyed.\<close>

definition mount :: "Weapon \<Rightarrow> string \<Rightarrow> MountedWeapon" where
  "mount w loc_id = \<lparr>weapon = w, location = loc_id, ammo_remaining = ammo_per_ton w,
     MountedWeapon.destroyed = False\<rparr>"

text \<open>The \<open>for\<close> loop of \<open>_apply_crits\<close> with \<open>n\<close> iterations left.\<close>

definition crit_loop :: "string \<Rightarrow> nat \<Rightarrow> Mech \<Rightarrow> rng \<Rightarrow> outcome" where
  "crit_loop location_id n = run (CritLoop location_id n)"

text \<open>Every location is stored in the \<open>locations\<close> dict under its own name.\<close>

definition names_ok :: "Mech \<Rightarrow> bool" where
  "names_ok m \<longleftrightarrow> (\<forall>(k, loc) \<in> set (locations m). Location.name loc = k)"

text \<open>The number of critical slots of the unit that are not yet marked \<open>DESTROYED\<close>.\<close>

definition live_slots :: "Mech \<Rightarrow> nat" where
  "live_slots m = (\<Sum>(k, loc) \<leftarrow> locations m. length (available_slots loc))"

text \<open>
  What a call of the damage pipeline may change: weapons and locations keep their
  identity and order, what is destroyed stays destroyed, no critical slot comes back,
  the engine type is kept and an inactive unit stays inactive.
\<close>

definition weapons_evolve :: "MountedWeapon list \<Rightarrow> MountedWeapon list \<Rightarrow> bool" where
  "weapons_evolve ws ws' \<longleftrightarrow>
     list_all2 (\<lambda>w w'. weapon w' = weapon w \<and> location w' = location w
                  \<and> (MountedWeapon.destroyed w \<longrightarrow> MountedWeapon.destroyed w')) ws ws'"

definition locations_evolve :: "(string \<times> Location) list \<Rightarrow> (string \<times> Location) list \<Rightarrow> bool" where
  "locations_evolve ls ls' \<longleftrightarrow>
     list_all2 (\<lambda>(k, l) (k', l'). k' = k \<and> Location.name l' = Location.name l
                  \<and> has_case l' = has_case l
                  \<and> (Location.destroyed l \<longrightarrow> Location.destroyed l')
                  \<and> length (available_slots l') \<le> length (available_slots l)) ls ls'"

definition evolves :: "Mech \<Rightarrow> Mech \<Rightarrow> bool" where
  "evolves m m' \<longleftrightarrow>
     locations_evolve (locations m) (locations m') \<and> weapons_evolve (weapons m) (weapons m')
     \<and> engine_type m' = engine_type m \<and> (\<not> active m \<longrightarrow> \<not> active m')"

text \<open>The stream \<open>r'\<close> is what is left of \<open>r\<close> after some draws.\<close>

definition later :: "rng \<Rightarrow> rng \<Rightarrow> bool" where
  "later r r' \<longleftrightarrow> (\<exists>n. r' = sdrop n r)"

text \<open>A call that started on \<open>m\<close> and \<open>r\<close> and returned \<open>m'\<close> and \<open>r'\<close> respected both.\<close>

definition step_ok :: "Mech \<Rightarrow> rng \<Rightarrow> Mech \<Rightarrow> rng \<Rightarrow> bool" where
  "step_ok m r m' r' \<longleftrightarrow> evolves m m' \<and> later r r'"

text \<open>
  \<open>Location(...)\<close> as \<open>load_mech\<close> builds it: current values start at their maxima.
\<close>

definition new_location :: "string \<Rightarrow> int \<Rightarrow> int \<Rightarrow> int \<Rightarrow> string list \<Rightarrow> bool \<Rightarrow> Location" where
  "new_location loc_id armor rear_armor struct slots c =
     \<lparr>Location.name = loc_id, max_armor = armor, current_armor = armor,
      rear_max_armor = rear_armor, rear_current_armor = rear_armor,
      max_structure = struct, current_structure = struct, Location.destroyed = False,
      crittable_slots = slots, has_case = c\<rparr>"

text \<open>
  A 20-ton unit used for the concrete runs below, with the engine type left open: an
  AC/20 and its ammunition in the right torso, a machine gun with ammunition in the
  left torso, which has CASE, and a medium laser in the left arm.
\<close>

definition example_mech :: "string \<Rightarrow> Mech" where
  "example_mech engine =
     \<lparr>Mech.name = ''Example'', tonnage = 20, walk_mp = 6, run_mp = 9, jump_mp = 0,
      gunnery = 4, piloting = 5,
      locations =
        [(''HD'', new_location ''HD'' 9 0 3 [''Cockpit''] False),
         (''CT'', new_location ''CT'' 10 3 6 [''Engine''] False),
         (''LT'', new_location ''LT'' 2 1 5 [''Machine Gun'', ''Ammo Machine Gun''] True),
         (''RT'', new_location ''RT'' 8 2 5 [''AC/20'', ''Ammo AC/20''] False),
         (''LA'', new_location ''LA'' 4 0 3 [''Medium Laser''] False),
         (''RA'', new_location ''RA'' 4 0 3 [] False),
         (''LL'', new_location ''LL'' 6 0 4 [] False),
         (''RL'', new_location ''RL'' 6 0 4 [] False)],
      weapons = [mount AC20 ''RT'', mount MACHINE_GUN ''LT'', mount MEDIUM_LASER ''LA''],
      heat_sinks = 10, double_heat_sinks = False, engine_type = engine,
      current_heat = 0, active = True, movement_mode = ''stand'', hexes_moved = 0\<rparr>"

text \<open>The armor pool that \<open>apply_damage\<close> draws on for a hit on a location.\<close>

definition armor_pool :: "string \<Rightarrow> bool \<Rightarrow> Location \<Rightarrow> int" where
  "armor_pool location_id is_rear loc =
     (if is_rear \<and> location_id \<in> REAR_ARMOR_LOCATIONS then rear_current_armor loc
      else current_armor loc)"

text \<open>The location once that pool and the structure are used up and it is marked destroyed.\<close>

definition wrecked :: "string \<Rightarrow> bool \<Rightarrow> Location \<Rightarrow> Location" where
  "wrecked location_id is_rear loc =
     (if is_rear \<and> location_id \<in> REAR_ARMOR_LOCATIONS
      then loc\<lparr>rear_current_armor := 0, current_structure := 0, Location.destroyed := True\<rparr>
      else loc\<lparr>current_armor := 0, current_structure := 0, Location.destroyed := True\<rparr>)"

text \<open>Every weapon mounted in the location is marked destroyed.\<close>

definition weapons_destroyed_in :: "string \<Rightarrow> Mech \<Rightarrow> bool" where
  "weapons_destroyed_in location_id m \<longleftrightarrow>
     (\<forall>mw \<in> set (weapons m). location mw = location_id \<longrightarrow> MountedWeapon.destroyed mw)"

text \<open>
  A random source is fair when every value of every index range keeps coming back:
  from any position on, a later draw falls on any given index. The source that counts
  0, 1, 2, ... is fair; a constant source is not.
\<close>

definition fair :: "rng \<Rightarrow> bool" where
  "fair r \<longleftrightarrow> (\<forall>n len k. k < len \<longrightarrow> (\<exists>j\<ge>n. r !! j mod len = k))"

text \<open>Length of the transfer chain that starts at a location id.\<close>

definition rank :: "string \<Rightarrow> nat" where
  "rank k =
     (case map_of TRANSFER_MAP k of
        Some (Some t) \<Rightarrow> (case map_of TRANSFER_MAP t of Some (Some t') \<Rightarrow> 2 | _ \<Rightarrow> 1)
      | _ \<Rightarrow> 0)"

text \<open>The call comes back, with a result or with an exception, instead of looping forever.\<close>

definition returns :: "outcome \<Rightarrow> bool" where
  "returns x \<longleftrightarrow> (\<exists>res. x = Some res)"

text \<open>
  The example unit after one critical hit on the first of two center-torso slots.
\<close>

definition crit_example :: Mech where
  "crit_example =
     set_location ''CT'' (new_location ''CT'' 10 3 6 [''DESTROYED'', ''Engine''] False)
       (example_mech ''standard'')"

section \<open>Heat (heat.py)\<close>

text \<open>
  \<open>weapons_fired\<close> is the list of weapon objects as they are when the function is called.
\<close>

definition movement_heat :: "Mech \<Rightarrow> int" where
  "movement_heat m =
     (if movement_mode m = ''walk'' then 1
      else if movement_mode m = ''run'' then 2
      else if movement_mode m = ''jump'' then max (jump_mp m) 3
      else 0)"

fun weapon_heat :: "MountedWeapon list \<Rightarrow> int" where
  "weapon_heat [] = 0"
| "weapon_heat (mw # ws) =
     (if \<not> MountedWeapon.destroyed mw
      then heat (weapon mw) + (if is_ultra (weapon mw) then heat (weapon mw) else 0)
      else 0) + weapon_heat ws"

definition calculate_heat_generated :: "Mech \<Rightarrow> MountedWeapon list \<Rightarrow> int" where
  "calculate_heat_generated m weapons_fired = movement_heat m + weapon_heat weapons_fired"

definition calculate_heat_dissipation :: "Mech \<Rightarrow> int" where
  "calculate_heat_dissipation m =
     (let per_sink = (if double_heat_sinks m then 2 else 1) in heat_sinks m * per_sink)"

text \<open>The heat the phase stores in the unit before it checks any threshold.\<close>

definition updated_heat :: "Mech \<Rightarrow> MountedWeapon list \<Rightarrow> int" where
  "updated_heat m weapons_fired =
     max 0 (current_heat m + calculate_heat_generated m weapons_fired - calculate_heat_dissipation m)"

text \<open>
  Lines 61-86 of heat.py, the shutdown checks on the updated heat: whether the unit
  shuts down, and the random stream left. From 30 on there is no roll. In the three
  bands below a roll is made and the unit shuts down when the roll reaches the band's
  number; otherwise the phase goes on to the ammunition check.
\<close>

definition shutdown_check :: "int \<Rightarrow> rng \<Rightarrow> bool \<times> rng" where
  "shutdown_check h r =
     (if h \<ge> 30 then (True, r)
      else if h \<ge> 25 then (let (roll, r1) = roll_2d6 r in (roll \<ge> 4, r1))
      else if h \<ge> 19 then (let (roll, r1) = roll_2d6 r in (roll \<ge> 6, r1))
      else if h \<ge> 14 then (let (roll, r1) = roll_2d6 r in (roll \<ge> 8, r1))
      else (False, r))"

text \<open>\<open>mw.ammo_remaining and mw.ammo_remaining > 0\<close>\<close>

definition has_ammo :: "MountedWeapon \<Rightarrow> bool" where
  "has_ammo mw = (case ammo_remaining mw of None \<Rightarrow> False | Some a \<Rightarrow> a > 0)"

text \<open>\<open>random.choice\<close> on a non-empty list: one draw picks the index.\<close>

definition choice :: "'a list \<Rightarrow> rng \<Rightarrow> 'a \<times> rng" where
  "choice xs r = (xs ! (shd r mod length xs), stl r)"

text \<open>
  Lines 88-112, the ammunition check, reached only when the unit did not shut down.
\<close>

definition ammo_risk_check :: "Mech \<Rightarrow> rng \<Rightarrow> outcome" where
  "ammo_risk_check m r =
     (if current_heat m \<ge> 18 then
        (if list_ex has_ammo (weapons m) then
           (let (roll, r1) = roll_2d6 r in
            if roll \<ge> 4 then
              (let ammo_weapons = filter has_ammo (weapons m) in
               if ammo_weapons \<noteq> [] then
                 (let (victim, r2) = choice ammo_weapons r1 in
                  ammo_explosion (location victim) (''Ammo '' @ Weapon.name (weapon victim)) m r2)
               else Some (Inr (m, r1)))
            else Some (Inr (m, r1)))
         else Some (Inr (m, r)))
      else Some (Inr (m, r)))"

definition apply_heat_phase :: "Mech \<Rightarrow> MountedWeapon list \<Rightarrow> rng \<Rightarrow> outcome" where
  "apply_heat_phase m weapons_fired r =
     (let m1 = m\<lparr>current_heat := updated_heat m weapons_fired\<rparr>;
          (shutdown, r1) = shutdown_check (current_heat m1) r
      in if shutdown then Some (Inr (m1\<lparr>active := False\<rparr>, r1))
         else ammo_risk_check m1 r1)"

text \<open>The example unit running hot: \<open>h\<close> is its heat before the phase.\<close>

definition hot_example :: "int \<Rightarrow> Mech" where
  "hot_example h = (example_mech ''standard'')\<lparr>current_heat := h\<rparr>"

section \<open>Dice tables (tables.py)\<close>

definition FRONT_HIT_TABLE :: "(int \<times> string) list" where
  "FRONT_HIT_TABLE = [(2, ''CT''), (3, ''RA''), (4, ''RA''), (5, ''RL''), (6, ''RT''), (7, ''CT''),
     (8, ''LT''), (9, ''LL''), (10, ''LA''), (11, ''LA''), (12, ''HD'')]"

definition LEFT_SIDE_HIT_TABLE :: "(int \<times> string) list" where
  "LEFT_SIDE_HIT_TABLE = [(2, ''LT''), (3, ''LL''), (4, ''LA''), (5, ''LA''), (6, ''LL''), (7, ''LT''),
     (8, ''CT''), (9, ''RT''), (10, ''RA''), (11, ''RL''), (12, ''HD'')]"

definition RIGHT_SIDE_HIT_TABLE :: "(int \<times> string) list" where
  "RIGHT_SIDE_HIT_TABLE = [(2, ''RT''), (3, ''RL''), (4, ''RA''), (5, ''RA''), (6, ''RL''), (7, ''RT''),
     (8, ''CT''), (9, ''LT''), (10, ''LA''), (11, ''LL''), (12, ''HD'')]"

definition REAR_HIT_TABLE :: "(int \<times> string) list" where
  "REAR_HIT_TABLE = [(2, ''CT''), (3, ''RT''), (4, ''RT''), (5, ''RL''), (6, ''RT''), (7, ''CT''),
     (8, ''LT''), (9, ''LL''), (10, ''LT''), (11, ''LT''), (12, ''HD'')]"

definition HIT_TABLES :: "(string \<times> (int \<times> string) list) list" where
  "HIT_TABLES = [(''front'', FRONT_HIT_TABLE), (''left'', LEFT_SIDE_HIT_TABLE),
     (''right'', RIGHT_SIDE_HIT_TABLE), (''rear'', REAR_HIT_TABLE)]"

text \<open>The table is looked up before the dice are rolled.\<close>

definition roll_hit_location :: "string \<Rightarrow> rng \<Rightarrow> error + string \<times> rng" where
  "roll_hit_location direction r =
     (case map_of HIT_TABLES direction of
        None \<Rightarrow> Inl KeyError
      | Some table \<Rightarrow>
          (let (roll, r') = roll_2d6 r in
           case map_of table roll of
             None \<Rightarrow> Inl KeyError
           | Some loc \<Rightarrow> Inr (loc, r')))"

definition CLUSTER_TABLE :: "(int \<times> (int \<times> int) list) list" where
  "CLUSTER_TABLE =
     [(2, [(2, 1), (3, 1), (4, 1), (5, 1), (6, 1), (7, 1), (8, 2), (9, 2), (10, 2), (11, 2), (12, 2)]),
      (4, [(2, 1), (3, 1), (4, 2), (5, 2), (6, 2), (7, 3), (8, 3), (9, 3), (10, 3), (11, 4), (12, 4)]),
      (5, [(2, 1), (3, 2), (4, 2), (5, 3), (6, 3), (7, 3), (8, 3), (9, 4), (10, 4), (11, 5), (12, 5)]),
      (6, [(2, 2), (3, 2), (4, 3), (5, 3), (6, 4), (7, 4), (8, 4), (9, 4), (10, 5), (11, 5), (12, 6)]),
      (10, [(2, 3), (3, 3), (4, 4), (5, 6), (6, 6), (7, 6), (8, 6), (9, 8), (10, 8), (11, 10), (12, 10)]),
      (15, [(2, 5), (3, 5), (4, 6), (5, 9), (6, 9), (7, 9), (8, 9), (9, 12), (10, 12), (11, 15), (12, 15)]),
      (20, [(2, 6), (3, 6), (4, 9), (5, 12), (6, 12), (7, 12), (8, 12), (9, 16), (10, 16), (11, 20), (12, 20)])]"

text \<open>
  A size that is not a key of the table takes the row of the nearest key; Python's \<open>min\<close>
  over the sorted keys keeps the first of several nearest ones, as \<open>arg_min_list\<close> does.
\<close>

definition roll_cluster_hits :: "int \<Rightarrow> rng \<Rightarrow> error + int \<times> rng" where
  "roll_cluster_hits csize r =
     (let row = (case map_of CLUSTER_TABLE csize of
                   None \<Rightarrow>
                     (let valid_sizes = sort (map fst CLUSTER_TABLE);
                          best = arg_min_list (\<lambda>s. \<bar>s - csize\<bar>) valid_sizes
                      in map_of CLUSTER_TABLE best)
                 | Some t \<Rightarrow> Some t)
      in case row of
           None \<Rightarrow> Inl KeyError
         | Some table \<Rightarrow>
             (let (roll, r') = roll_2d6 r in
              case map_of table roll of
                None \<Rightarrow> Inl KeyError
              | Some n \<Rightarrow> Inr (n, r')))"

definition TARGET_MOVEMENT_MODIFIERS :: "(int \<times> int \<times> int) list" where
  "TARGET_MOVEMENT_MODIFIERS =
     [(0, 2, 0), (3, 4, 1), (5, 6, 2), (7, 9, 3), (10, 17, 4), (18, 24, 5), (25, 99, 6)]"

fun first_bucket :: "(int \<times> int \<times> int) list \<Rightarrow> int \<Rightarrow> int" where
  "first_bucket [] hexes = 6"
| "first_bucket ((min_h, max_h, modifier) # rest) hexes =
     (if min_h \<le> hexes \<and> hexes \<le> max_h then modifier else first_bucket rest hexes)"

definition get_target_movement_modifier :: "int \<Rightarrow> int" where
  "get_target_movement_modifier hexes = first_bucket TARGET_MOVEMENT_MODIFIERS hexes"

section \<open>Combat resolution (combat.py)\<close>

record AttackResult =
  weapon_name :: string
  target_number :: int
  roll :: int
  hit :: bool
  damage_dealt :: int

definition get_attacker_movement_modifier :: "string \<Rightarrow> int" where
  "get_attacker_movement_modifier mode =
     (if mode = ''stand'' then 0
      else if mode = ''walk'' then 1
      else if mode = ''run'' then 2
      else if mode = ''jump'' then 3
      else 0)"

definition get_heat_to_hit_modifier :: "int \<Rightarrow> int" where
  "get_heat_to_hit_modifier h =
     (if h \<ge> 24 then 4 else if h \<ge> 17 then 3 else if h \<ge> 13 then 2 else if h \<ge> 8 then 1 else 0)"

text \<open>Python's \<open>sub in s\<close> on strings.\<close>

fun contains :: "string \<Rightarrow> string \<Rightarrow> bool" where
  "contains sub [] = (sub = [])"
| "contains sub (c # cs) = (take (length sub) (c # cs) = sub \<or> contains sub cs)"

definition calculate_target_number :: "Mech \<Rightarrow> MountedWeapon \<Rightarrow> Mech \<Rightarrow> int \<Rightarrow> int \<Rightarrow> int option" where
  "calculate_target_number attacker mw target distance terrain_modifier =
     (case get_range_modifier mw distance of
        None \<Rightarrow> None
      | Some range_mod \<Rightarrow>
          (let tn = gunnery attacker
                    + get_attacker_movement_modifier (movement_mode attacker)
                    + get_target_movement_modifier (hexes_moved target)
                    + range_mod
                    + get_heat_to_hit_modifier (current_heat attacker)
                    + terrain_modifier
           in Some (if contains ''Pulse'' (Weapon.name (weapon mw)) then tn - 2 else tn)))"

text \<open>
  A weapon fired is an object of the attacker's weapon list, shared by reference between
  the firing list, the attack and the heat phase: it is named here by its position in
  that list, which never changes. \<open>use_ammo\<close> is \<open>weapon.ammo_remaining -= 1\<close> and
  \<open>jam\<close> is \<open>weapon.destroyed = True\<close> on that object.
\<close>

definition use_ammo :: "nat \<Rightarrow> Mech \<Rightarrow> Mech" where
  "use_ammo i m =
     m\<lparr>weapons := (weapons m)[i := (weapons m ! i)
          \<lparr>ammo_remaining := map_option (\<lambda>a. a - 1) (ammo_remaining (weapons m ! i))\<rparr>]\<rparr>"

definition jam :: "nat \<Rightarrow> Mech \<Rightarrow> Mech" where
  "jam i m = m\<lparr>weapons := (weapons m)[i := (weapons m ! i)\<lparr>MountedWeapon.destroyed := True\<rparr>]\<rparr>"

text \<open>
  One hit of a weapon: a location is rolled and the damage applied there. Returns the
  target and the random stream left.
\<close>

definition hit_location :: "string \<Rightarrow> int \<Rightarrow> Mech \<Rightarrow> rng \<Rightarrow> outcome" where
  "hit_location direction dmg target r =
     (case roll_hit_location direction r of
        Inl e \<Rightarrow> Some (Inl e)
      | Inr (loc, r1) \<Rightarrow> apply_damage loc dmg False target r1)"

text \<open>
  The missile loop of a cluster weapon, with the number of missiles left and the damage
  dealt so far; it stops when the target goes inactive.
\<close>

fun missile_loop :: "nat \<Rightarrow> string \<Rightarrow> int \<Rightarrow> int \<Rightarrow> Mech \<Rightarrow> rng
    \<Rightarrow> (error + int \<times> Mech \<times> rng) option" where
  "missile_loop 0 direction dmg total_damage target r = Some (Inr (total_damage, target, r))"
| "missile_loop (Suc n) direction dmg total_damage target r =
     (case hit_location direction dmg target r of
        None \<Rightarrow> None
      | Some (Inl e) \<Rightarrow> Some (Inl e)
      | Some (Inr (target1, r1)) \<Rightarrow>
          if \<not> active target1 then Some (Inr (total_damage + dmg, target1, r1))
          else missile_loop n direction dmg (total_damage + dmg) target1 r1)"

text \<open>The damage part of a hit (lines 129-156): cluster weapons, then single-hit weapons.\<close>

definition deal_damage :: "Weapon \<Rightarrow> string \<Rightarrow> Mech \<Rightarrow> rng \<Rightarrow> (error + int \<times> Mech \<times> rng) option" where
  "deal_damage w direction target r =
     (if cluster_size w > 0 then
        (case (if is_streak w then Inr (cluster_size w, r) else roll_cluster_hits (cluster_size w) r) of
           Inl e \<Rightarrow> Some (Inl e)
         | Inr (missiles_hit, r1) \<Rightarrow>
             missile_loop (nat missiles_hit) direction (damage_per_missile w) 0 target r1)
      else
        (case hit_location direction (damage w) target r of
           None \<Rightarrow> None
         | Some (Inl e) \<Rightarrow> Some (Inl e)
         | Some (Inr (target1, r1)) \<Rightarrow> Some (Inr (damage w, target1, r1))))"

text \<open>
  The second shot of an Ultra autocannon (lines 158-173), on the attacker after the
  first shot's ammo was taken.
\<close>

definition ultra_shot :: "Mech \<Rightarrow> nat \<Rightarrow> Mech \<Rightarrow> string \<Rightarrow> int \<Rightarrow> int \<Rightarrow> rng
    \<Rightarrow> (error + int \<times> Mech \<times> Mech \<times> rng) option" where
  "ultra_shot attacker i target direction tn total_damage r =
     (let mw = weapons attacker ! i; w = weapon mw in
      if is_ultra w \<and> has_ammo mw then
        (let (jam_roll, r1) = roll_2d6 r in
         if jam_roll = 2 then Some (Inr (total_damage, jam i attacker, target, r1))
         else
           (let (roll2, r2) = roll_2d6 r1;
                hit2 = (roll2 \<ge> tn \<and> roll2 \<noteq> 2);
                attacker1 = use_ammo i attacker
            in if hit2 then
                 (case hit_location direction (damage w) target r2 of
                    None \<Rightarrow> None
                  | Some (Inl e) \<Rightarrow> Some (Inl e)
                  | Some (Inr (target1, r3)) \<Rightarrow> Some (Inr (total_damage + damage w, attacker1, target1, r3)))
               else Some (Inr (total_damage, attacker1, target, r2))))
      else Some (Inr (total_damage, attacker, target, r)))"

definition resolve_attack :: "Mech \<Rightarrow> nat \<Rightarrow> Mech \<Rightarrow> int \<Rightarrow> string \<Rightarrow> int \<Rightarrow> rng
    \<Rightarrow> (error + AttackResult \<times> Mech \<times> Mech \<times> rng) option" where
  "resolve_attack attacker i target distance direction terrain_modifier r =
     (let mw = weapons attacker ! i; w = weapon mw;
          no_shot = \<lparr>weapon_name = Weapon.name w, target_number = 99, roll = 0, hit = False,
                     damage_dealt = 0\<rparr>
      in if MountedWeapon.destroyed mw then Some (Inr (no_shot, attacker, target, r))
         else if (case ammo_remaining mw of None \<Rightarrow> False | Some a \<Rightarrow> a \<le> 0)
           then Some (Inr (no_shot, attacker, target, r))
         else
           (case calculate_target_number attacker mw target distance terrain_modifier of
              None \<Rightarrow> Some (Inr (no_shot, attacker, target, r))
            | Some tn \<Rightarrow>
                (let (roll1, r1) = roll_2d6 r;
                     hit1 = (roll1 \<ge> tn \<and> roll1 \<noteq> 2)
                 in if \<not> hit1 then
                      Some (Inr (\<lparr>weapon_name = Weapon.name w, target_number = tn, roll = roll1,
                                  hit = False, damage_dealt = 0\<rparr>,
                                 (if \<not> is_streak w \<and> ammo_remaining mw \<noteq> None
                                  then use_ammo i attacker else attacker),
                                 target, r1))
                    else
                      (let attacker1 = (if ammo_remaining mw \<noteq> None then use_ammo i attacker
                                        else attacker)
                       in case deal_damage w direction target r1 of
                            None \<Rightarrow> None
                          | Some (Inl e) \<Rightarrow> Some (Inl e)
                          | Some (Inr (total_damage, target1, r2)) \<Rightarrow>
                              (case ultra_shot attacker1 i target1 direction tn total_damage r2 of
                                 None \<Rightarrow> None
                               | Some (Inl e) \<Rightarrow> Some (Inl e)
                               | Some (Inr (total_damage2, attacker2, target2, r3)) \<Rightarrow>
                                   Some (Inr (\<lparr>weapon_name = Weapon.name w, target_number = tn,
                                               roll = roll1, hit = True, damage_dealt = total_damage2\<rparr>,
                                              attacker2, target2, r3)))))))"

text \<open>The weapons \<open>resolve_all_attacks\<close> and the selection policies may fire at a distance.\<close>

definition can_fire :: "int \<Rightarrow> MountedWeapon \<Rightarrow> bool" where
  "can_fire distance mw \<longleftrightarrow>
     \<not> MountedWeapon.destroyed mw
     \<and> (case ammo_remaining mw of None \<Rightarrow> True | Some a \<Rightarrow> a > 0)
     \<and> get_range_modifier mw distance \<noteq> None"

fun attack_loop :: "nat list \<Rightarrow> Mech \<Rightarrow> Mech \<Rightarrow> int \<Rightarrow> string \<Rightarrow> int \<Rightarrow> AttackResult list \<Rightarrow> rng
    \<Rightarrow> (error + AttackResult list \<times> Mech \<times> Mech \<times> rng) option" where
  "attack_loop [] attacker target distance direction terrain results r =
     Some (Inr (results, attacker, target, r))"
| "attack_loop (i # rest) attacker target distance direction terrain results r =
     (if \<not> active target then Some (Inr (results, attacker, target, r))
      else
        (case resolve_attack attacker i target distance direction terrain r of
           None \<Rightarrow> None
         | Some (Inl e) \<Rightarrow> Some (Inl e)
         | Some (Inr (result, attacker1, target1, r1)) \<Rightarrow>
             attack_loop rest attacker1 target1 distance direction terrain (results @ [result]) r1))"

definition resolve_all_attacks :: "Mech \<Rightarrow> Mech \<Rightarrow> int \<Rightarrow> string \<Rightarrow> nat list option \<Rightarrow> int \<Rightarrow> rng
    \<Rightarrow> (error + AttackResult list \<times> Mech \<times> Mech \<times> rng) option" where
  "resolve_all_attacks attacker target distance direction weapons_to_fire terrain r =
     (let firing = (case weapons_to_fire of
                      None \<Rightarrow> filter (\<lambda>i. can_fire distance (weapons attacker ! i))
                                [0..<length (weapons attacker)]
                    | Some l \<Rightarrow> l)
      in attack_loop firing attacker target distance direction terrain [] r)"

section \<open>Decision heuristics and fight loop (simulator.py)\<close>

text \<open>
  Python binds the positional arguments of a call to the parameters of the function
  called and raises \<open>TypeError\<close> when there are fewer than the parameters without a
  default or more than all parameters: \<open>required\<close> and \<open>allowed\<close> are those two numbers,
  \<open>given\<close> is the number of arguments at the call.
\<close>

definition positional_call_ok :: "nat \<Rightarrow> nat \<Rightarrow> nat \<Rightarrow> bool" where
  "positional_call_ok required allowed given \<longleftrightarrow> required \<le> given \<and> given \<le> allowed"

text \<open>
  simulator.py calls \<open>calculate_heat_dissipation(mech, heat_factor)\<close> with two arguments;
  heat.py declares \<open>calculate_heat_dissipation(mech)\<close> with one parameter.
  \<open>heat_factor\<close> is a float that is only ever passed on; it is a rational here.
\<close>

definition call_calculate_heat_dissipation :: "Mech \<Rightarrow> rat \<Rightarrow> error + int" where
  "call_calculate_heat_dissipation m heat_factor =
     (if positional_call_ok 1 1 2 then Inr (calculate_heat_dissipation m) else Inl TypeError)"

text \<open>
  simulator.py calls \<open>apply_heat_phase(mech, weapons, debug, heat_factor)\<close> with four
  arguments; heat.py declares \<open>apply_heat_phase(mech, weapons_fired, debug=False)\<close>.
\<close>

definition call_apply_heat_phase :: "Mech \<Rightarrow> MountedWeapon list \<Rightarrow> bool \<Rightarrow> rat \<Rightarrow> rng \<Rightarrow> outcome" where
  "call_apply_heat_phase m weapons_fired debug heat_factor r =
     (if positional_call_ok 2 3 4 then apply_heat_phase m weapons_fired r else Some (Inl TypeError))"

text \<open>
  Floats are exact rationals here. \<open>weapon_efficiency\<close> is the sort key of the weapon
  selection; \<open>cluster_size or 1\<close> is 1 for a cluster size of 0.
\<close>

definition total_dmg :: "Weapon \<Rightarrow> int" where
  "total_dmg w = damage w * (if cluster_size w \<noteq> 0 then cluster_size w else 1)"

definition weapon_efficiency :: "MountedWeapon \<Rightarrow> rat" where
  "weapon_efficiency mw = of_int (total_dmg (weapon mw)) / max (of_int (heat (weapon mw))) (1 / 2)"

text \<open>
  The greedy loop of the selection: a weapon is added while the projected heat stays at
  5 or less, and the first weapon is always added.
\<close>

fun greedy_fill :: "Mech \<Rightarrow> int \<Rightarrow> int \<Rightarrow> nat list \<Rightarrow> nat list \<Rightarrow> int \<Rightarrow> nat list" where
  "greedy_fill m mv_heat dissipation [] selected cumulative_weapon_heat = selected"
| "greedy_fill m mv_heat dissipation (i # rest) selected cumulative_weapon_heat =
     (let mw = weapons m ! i;
          projected = current_heat m + mv_heat + cumulative_weapon_heat + heat (weapon mw) - dissipation
      in if projected \<le> 5 \<or> selected = []
         then greedy_fill m mv_heat dissipation rest (selected @ [i])
                (cumulative_weapon_heat + heat (weapon mw))
         else greedy_fill m mv_heat dissipation rest selected cumulative_weapon_heat)"

text \<open>
  The result is the list of positions of the weapons selected. Python's sort is stable
  and \<open>reverse=True\<close> keeps the order of equal keys, as the stable \<open>sort_key\<close> on the
  negated key does.
\<close>

definition select_weapons_to_fire :: "Mech \<Rightarrow> int \<Rightarrow> rat \<Rightarrow> error + nat list" where
  "select_weapons_to_fire m distance heat_factor =
     (let available = filter (\<lambda>i. can_fire distance (weapons m ! i)) [0..<length (weapons m)] in
      if available = [] then Inr []
      else
        (let sorted_available = sort_key (\<lambda>i. - weapon_efficiency (weapons m ! i)) available in
         case call_calculate_heat_dissipation m heat_factor of
           Inl e \<Rightarrow> Inl e
         | Inr dissipation \<Rightarrow>
             Inr (greedy_fill m (movement_heat m) dissipation sorted_available [] 0)))"

definition choose_movement :: "Mech \<Rightarrow> string \<times> int" where
  "choose_movement m =
     (let mp_penalty = get_heat_mp_penalty (current_heat m);
          effective_walk = max 0 (walk_mp m - mp_penalty)
      in if effective_walk \<le> 0 then (''stand'', 0) else (''walk'', effective_walk))"

text \<open>The sums of the loop of \<open>heat_neutral_dpr\<close>: damage and heat of the weapons that can fire.\<close>

definition in_range_damage :: "Mech \<Rightarrow> int \<Rightarrow> int" where
  "in_range_damage m distance = (\<Sum>mw \<leftarrow> filter (can_fire distance) (weapons m). total_dmg (weapon mw))"

definition in_range_heat :: "Mech \<Rightarrow> int \<Rightarrow> int" where
  "in_range_heat m distance = (\<Sum>mw \<leftarrow> filter (can_fire distance) (weapons m). heat (weapon mw))"

definition heat_neutral_dpr :: "Mech \<Rightarrow> int \<Rightarrow> rat \<Rightarrow> error + rat" where
  "heat_neutral_dpr m distance heat_factor =
     (if in_range_heat m distance \<le> 0 then Inr (of_int (in_range_damage m distance))
      else
        (case call_calculate_heat_dissipation m heat_factor of
           Inl e \<Rightarrow> Inl e
         | Inr dissipation \<Rightarrow>
             Inr (of_int (in_range_damage m distance)
                  * min 1 (of_int dissipation / of_int (in_range_heat m distance)))))"

text \<open>
  The loop of \<open>find_preferred_range\<close> over the ranges left, with the best range and
  advantage so far; the unit's own rate is computed first.
\<close>

fun preferred_range_loop :: "Mech \<Rightarrow> Mech \<Rightarrow> rat \<Rightarrow> int list \<Rightarrow> int \<Rightarrow> rat \<Rightarrow> error + int" where
  "preferred_range_loop m opponent heat_factor [] best_range best_advantage = Inr best_range"
| "preferred_range_loop m opponent heat_factor (d # rest) best_range best_advantage =
     (case heat_neutral_dpr m d heat_factor of
        Inl e \<Rightarrow> Inl e
      | Inr own \<Rightarrow>
          (case heat_neutral_dpr opponent d heat_factor of
             Inl e \<Rightarrow> Inl e
           | Inr other \<Rightarrow>
               (if own - other > best_advantage
                then preferred_range_loop m opponent heat_factor rest d (own - other)
                else preferred_range_loop m opponent heat_factor rest best_range best_advantage)))"

definition find_preferred_range :: "Mech \<Rightarrow> Mech \<Rightarrow> int \<Rightarrow> rat \<Rightarrow> error + int" where
  "find_preferred_range m opponent max_range heat_factor =
     preferred_range_loop m opponent heat_factor [1..max_range] 1 (- 999)"

text \<open>Returns \<open>(a_mode, a_hexes, b_mode, b_hexes, new_distance)\<close>.\<close>

definition optimal_movement :: "Mech \<Rightarrow> Mech \<Rightarrow> int \<Rightarrow> rat
    \<Rightarrow> error + string \<times> int \<times> string \<times> int \<times> int" where
  "optimal_movement mech_a mech_b current_distance heat_factor =
     (case heat_neutral_dpr mech_a current_distance heat_factor of
        Inl e \<Rightarrow> Inl e
      | Inr dpr_a \<Rightarrow>
          (case heat_neutral_dpr mech_b current_distance heat_factor of
             Inl e \<Rightarrow> Inl e
           | Inr dpr_b \<Rightarrow>
               (let mp_pen_a = get_heat_mp_penalty (current_heat mech_a);
                    mp_pen_b = get_heat_mp_penalty (current_heat mech_b);
                    walk_a = max 0 (walk_mp mech_a - mp_pen_a);
                    run_a = max 0 (run_mp mech_a - mp_pen_a);
                    walk_b = max 0 (walk_mp mech_b - mp_pen_b);
                    run_b = max 0 (run_mp mech_b - mp_pen_b)
                in if dpr_a > dpr_b then
                     Inr (''walk'', walk_a, ''run'', run_b, max 1 (current_distance - (run_b - walk_a)))
                   else if dpr_b > dpr_a then
                     Inr (''run'', run_a, ''walk'', walk_b, max 1 (current_distance - (run_a - walk_b)))
                   else
                     Inr (''walk'', walk_a, ''walk'', walk_b,
                          max 1 (current_distance - (walk_a + walk_b))))))"

record FightResult =
  winner :: "string option"
  winner_name :: "string option"
  rounds :: int
  mech_a_remaining_hp :: int
  mech_b_remaining_hp :: int
  mech_a_damage_dealt :: int
  mech_b_damage_dealt :: int

text \<open>
  What the loop of \<open>fight\<close> carries from round to round: both units, the distance, the
  damage totals, the number of the last round entered and the random stream.
\<close>

record FightState =
  mech_a :: Mech
  mech_b :: Mech
  current_distance :: int
  mech_a_damage :: int
  mech_b_damage :: int
  last_round :: int
  stream :: rng

text \<open>
  The movement phase of a round (lines 264-285): the modes and distances chosen are
  stored in both units. With \<open>debug\<close> the optimal policy also computes both preferred
  ranges for the log, which can raise.
\<close>

definition movement_phase :: "bool \<Rightarrow> string \<Rightarrow> rat \<Rightarrow> FightState \<Rightarrow> error + FightState" where
  "movement_phase debug movement_ai heat_factor s =
     (case (if movement_ai = ''optimal''
            then (case optimal_movement (mech_a s) (mech_b s) (current_distance s) heat_factor of
                    Inl e \<Rightarrow> Inl e
                  | Inr (a_mode, a_hexes, b_mode, b_hexes, new_dist) \<Rightarrow>
                      Inr (a_mode, a_hexes, b_mode, b_hexes, Some new_dist))
            else (let (a_mode, a_hexes) = choose_movement (mech_a s);
                      (b_mode, b_hexes) = choose_movement (mech_b s)
                  in Inr (a_mode, a_hexes, b_mode, b_hexes, None))) of
        Inl e \<Rightarrow> Inl e
      | Inr (a_mode, a_hexes, b_mode, b_hexes, new_dist) \<Rightarrow>
          (let a1 = (mech_a s)\<lparr>movement_mode := a_mode, hexes_moved := a_hexes\<rparr>;
               b1 = (mech_b s)\<lparr>movement_mode := b_mode, hexes_moved := b_hexes\<rparr>;
               s1 = s\<lparr>mech_a := a1, mech_b := b1\<rparr>
           in if movement_ai = ''optimal'' then
                (case (if debug
                       then (case find_preferred_range a1 b1 30 heat_factor of
                               Inl e \<Rightarrow> Inl e
                             | Inr pref_a \<Rightarrow> find_preferred_range b1 a1 30 heat_factor)
                       else Inr 0) of
                   Inl e \<Rightarrow> Inl e
                 | Inr pref \<Rightarrow>
                     Inr (s1\<lparr>current_distance :=
                               (case new_dist of Some d \<Rightarrow> d | None \<Rightarrow> current_distance s)\<rparr>))
              else Inr s1))"

text \<open>
  One round of the loop body after the activity test (lines 256-336). The firing lists
  are positions in each unit's weapon list; the heat phase gets the weapon objects as
  they are after the attacks.
\<close>

definition fight_round :: "int \<Rightarrow> bool \<Rightarrow> int \<Rightarrow> string \<Rightarrow> rat \<Rightarrow> FightState
    \<Rightarrow> (error + FightState) option" where
  "fight_round round_num debug closing_rate movement_ai heat_factor s0 =
     (case movement_phase debug movement_ai heat_factor (s0\<lparr>last_round := round_num\<rparr>) of
        Inl e \<Rightarrow> Some (Inl e)
      | Inr s \<Rightarrow>
     (case select_weapons_to_fire (mech_a s) (current_distance s) heat_factor of
        Inl e \<Rightarrow> Some (Inl e)
      | Inr a_weapons \<Rightarrow>
     (case select_weapons_to_fire (mech_b s) (current_distance s) heat_factor of
        Inl e \<Rightarrow> Some (Inl e)
      | Inr b_weapons \<Rightarrow>
     (case resolve_all_attacks (mech_a s) (mech_b s) (current_distance s) ''front''
             (Some a_weapons) 0 (stream s) of
        None \<Rightarrow> None
      | Some (Inl e) \<Rightarrow> Some (Inl e)
      | Some (Inr (a_results, a1, b1, r1)) \<Rightarrow>
     (case resolve_all_attacks b1 a1 (current_distance s) ''front'' (Some b_weapons) 0 r1 of
        None \<Rightarrow> None
      | Some (Inl e) \<Rightarrow> Some (Inl e)
      | Some (Inr (b_results, b2, a2, r2)) \<Rightarrow>
     (case (if active a2
            then call_apply_heat_phase a2 (map (\<lambda>i. weapons a2 ! i) a_weapons) debug heat_factor r2
            else Some (Inr (a2, r2))) of
        None \<Rightarrow> None
      | Some (Inl e) \<Rightarrow> Some (Inl e)
      | Some (Inr (a3, r3)) \<Rightarrow>
     (case (if active b2
            then call_apply_heat_phase b2 (map (\<lambda>i. weapons b2 ! i) b_weapons) debug heat_factor r3
            else Some (Inr (b2, r3))) of
        None \<Rightarrow> None
      | Some (Inl e) \<Rightarrow> Some (Inl e)
      | Some (Inr (b3, r4)) \<Rightarrow>
          Some (Inr (s\<lparr>mech_a := a3, mech_b := b3,
                       mech_a_damage := mech_a_damage s + sum_list (map damage_dealt a_results),
                       mech_b_damage := mech_b_damage s + sum_list (map damage_dealt b_results),
                       current_distance :=
                         (if movement_ai \<noteq> ''optimal'' \<and> closing_rate > 0
                          then max 1 (current_distance s - closing_rate)
                          else current_distance s),
                       stream := r4\<rparr>)))))))))"

text \<open>
  The \<open>for round_num in range(1, max_rounds + 1)\<close> loop over the round numbers left; it
  leaves the loop before a round when either unit is inactive.
\<close>

fun fight_rounds :: "int list \<Rightarrow> bool \<Rightarrow> int \<Rightarrow> string \<Rightarrow> rat \<Rightarrow> FightState
    \<Rightarrow> (error + FightState) option" where
  "fight_rounds [] debug closing_rate movement_ai heat_factor s = Some (Inr s)"
| "fight_rounds (round_num # rest) debug closing_rate movement_ai heat_factor s =
     (if \<not> active (mech_a s) \<or> \<not> active (mech_b s) then Some (Inr s)
      else
        (case fight_round round_num debug closing_rate movement_ai heat_factor s of
           None \<Rightarrow> None
         | Some (Inl e) \<Rightarrow> Some (Inl e)
         | Some (Inr s1) \<Rightarrow> fight_rounds rest debug closing_rate movement_ai heat_factor s1))"

text \<open>
  The winner (lines 338-363), by side and name, from the two \<open>active\<close> flags and, when
  both units are active, from the remaining fractions of the hit points at the start
  (0 for a unit that started with none).
\<close>

definition decide_winner :: "Mech \<Rightarrow> Mech \<Rightarrow> int \<Rightarrow> int \<Rightarrow> string option \<times> string option" where
  "decide_winner a b a_hp_start b_hp_start =
     (if active a \<and> \<not> active b then (Some ''A'', Some (Mech.name a))
      else if active b \<and> \<not> active a then (Some ''B'', Some (Mech.name b))
      else if \<not> active a \<and> \<not> active b then (None, None)
      else
        (let a_pct = (if a_hp_start \<noteq> 0 then of_int (total_hp a) / of_int a_hp_start else (0::rat));
             b_pct = (if b_hp_start \<noteq> 0 then of_int (total_hp b) / of_int b_hp_start else 0)
         in if a_pct > b_pct then (Some ''A'', Some (Mech.name a))
            else if b_pct > a_pct then (Some ''B'', Some (Mech.name b))
            else (None, None)))"

text \<open>
  \<open>fight\<close> returns its result together with the two units as the fight left them (the
  source mutates the units it is given) and the random stream left.
\<close>

definition fight :: "Mech \<Rightarrow> Mech \<Rightarrow> int \<Rightarrow> int \<Rightarrow> bool \<Rightarrow> int \<Rightarrow> string \<Rightarrow> rat \<Rightarrow> rng
    \<Rightarrow> (error + FightResult \<times> Mech \<times> Mech \<times> rng) option" where
  "fight a b distance max_rounds debug closing_rate movement_ai heat_factor r =
     (let a_hp_start = max_total_hp a;
          b_hp_start = max_total_hp b;
          s0 = \<lparr>mech_a = a, mech_b = b, current_distance = distance, mech_a_damage = 0,
                mech_b_damage = 0, last_round = 0, stream = r\<rparr>
      in case fight_rounds [1..max_rounds] debug closing_rate movement_ai heat_factor s0 of
           None \<Rightarrow> None
         | Some (Inl e) \<Rightarrow> Some (Inl e)
         | Some (Inr s) \<Rightarrow>
             (let (winner_side, name) = decide_winner (mech_a s) (mech_b s) a_hp_start b_hp_start in
              Some (Inr (\<lparr>winner = winner_side, winner_name = name, rounds = last_round s,
                          mech_a_remaining_hp = total_hp (mech_a s),
                          mech_b_remaining_hp = total_hp (mech_b s),
                          mech_a_damage_dealt = mech_a_damage s,
                          mech_b_damage_dealt = mech_b_damage s\<rparr>,
                         mech_a s, mech_b s, stream s))))"

text \<open>
  Two units for the movement policy: a fast one with a machine gun (no heat) and a slow,
  unarmed one.
\<close>

definition kiter_example :: Mech where
  "kiter_example = (example_mech ''standard'')
     \<lparr>Mech.name := ''Kiter'', walk_mp := 8, run_mp := 12, weapons := [mount MACHINE_GUN ''LT'']\<rparr>"

definition closer_example :: Mech where
  "closer_example = (example_mech ''standard'')
     \<lparr>Mech.name := ''Closer'', walk_mp := 3, run_mp := 5, weapons := []\<rparr>"

section \<open>Vocabulary for the damage bookkeeping\<close>

text \<open>
  A unit is well formed when every location is stored under its own name, the names are
  location ids of the transfer map, and no armor or structure value is negative.
\<close>

definition well_formed :: "Mech \<Rightarrow> bool" where
  "well_formed m \<longleftrightarrow>
     (\<forall>(k, loc) \<in> set (locations m).
        Location.name loc = k \<and> k \<in> set (map fst TRANSFER_MAP)
        \<and> 0 \<le> current_armor loc \<and> 0 \<le> rear_current_armor loc \<and> 0 \<le> current_structure loc)"

text \<open>Hit points of one location, as \<open>Location.total_hp\<close>.\<close>

definition loc_hp :: "Location \<Rightarrow> int" where
  "loc_hp loc = current_armor loc + rear_current_armor loc + current_structure loc"

text \<open>
  The number of critical slots that carry ammunition, \<open>hit_item.startswith("Ammo")\<close>. A
  slot that has been hit carries the destroyed marker and no longer counts, so the number
  goes down exactly when a critical hit falls on ammunition.
\<close>

definition ammo_slots :: "Mech \<Rightarrow> nat" where
  "ammo_slots m =
     (\<Sum>(k, loc) \<leftarrow> locations m. length (filter (\<lambda>s. take 4 s = ''Ammo'') (crittable_slots loc)))"

text \<open>
  What a call that started on \<open>m\<close> and returned \<open>m'\<close> has done to the hit points. Every
  call leaves the unit well formed, brings back no ammunition slot and adds no hit point.
  A call of \<open>apply_damage\<close> removes at least its damage unless the unit is dead
  afterwards, and at most its damage if no ammunition slot was hit. The critical-hit
  methods remove nothing if no ammunition slot was hit.
\<close>

definition accounted :: "call \<Rightarrow> Mech \<Rightarrow> Mech \<Rightarrow> bool" where
  "accounted c m m' \<longleftrightarrow>
     well_formed m' \<and> ammo_slots m' \<le> ammo_slots m \<and> total_hp m' \<le> total_hp m
     \<and> (case c of
          ApplyDamage k d is_rear \<Rightarrow>
            (\<not> is_dead m' \<longrightarrow> d \<le> total_hp m - total_hp m')
            \<and> (ammo_slots m' = ammo_slots m \<longrightarrow> total_hp m - total_hp m' \<le> d)
        | AmmoExplosion k slot \<Rightarrow> True
        | ApplyCrits k n \<Rightarrow> ammo_slots m' = ammo_slots m \<longrightarrow> total_hp m' = total_hp m
        | CritLoop k n \<Rightarrow> ammo_slots m' = ammo_slots m \<longrightarrow> total_hp m' = total_hp m)"

text \<open>The damage of an \<open>apply_damage\<close> call is not negative.\<close>

definition damage_ok :: "call \<Rightarrow> bool" where
  "damage_ok c = (case c of ApplyDamage k d is_rear \<Rightarrow> 0 \<le> d | _ \<Rightarrow> True)"

section \<open>Range modifier: properties\<close>

lemma catalog_range_bands_ordered: "\<forall>(n, w) \<in> set WEAPON_DB. range_bands_ordered w"
  by (simp add: WEAPON_DB_def range_bands_ordered_def SMALL_LASER_def MEDIUM_LASER_def LARGE_LASER_def PPC_def
      ER_LARGE_LASER_def ER_PPC_def SMALL_PULSE_LASER_def MEDIUM_PULSE_LASER_def LARGE_PULSE_LASER_def
      FLAMER_def AC2_def AC5_def AC10_def AC20_def ULTRA_AC5_def LBX_AC10_def MACHINE_GUN_def SRM2_def SRM4_def
      SRM6_def LRM5_def LRM10_def LRM15_def LRM20_def STREAK_SRM2_def STREAK_SRM4_def STREAK_SRM6_def)

text \<open>
  C7. For a weapon with ordered range bands and every distance \<open>d\<close>: below the minimum
  range the modifier is (minimum range - d); it is 0 up to short range, 2 up to medium
  range, 4 up to long range, and undefined (\<open>None\<close>) beyond long range; from the minimum
  range on, the modifier never decreases as the distance grows, and once undefined it
  stays undefined.
\<close>

theorem range_modifier_bands:
  assumes "range_bands_ordered (weapon mw)"
  shows "(d < min_range (weapon mw) \<longrightarrow> get_range_modifier mw d = Some (min_range (weapon mw) - d))
       \<and> (min_range (weapon mw) \<le> d \<and> d \<le> short_range (weapon mw) \<longrightarrow> get_range_modifier mw d = Some 0)
       \<and> (min_range (weapon mw) \<le> d \<and> short_range (weapon mw) < d \<and> d \<le> medium_range (weapon mw)
            \<longrightarrow> get_range_modifier mw d = Some 2)
       \<and> (min_range (weapon mw) \<le> d \<and> medium_range (weapon mw) < d \<and> d \<le> long_range (weapon mw)
            \<longrightarrow> get_range_modifier mw d = Some 4)
       \<and> (long_range (weapon mw) < d \<longrightarrow> get_range_modifier mw d = None)
       \<and> (\<forall>d'. min_range (weapon mw) \<le> d \<and> d \<le> d' \<longrightarrow>
             (case get_range_modifier mw d of
                None \<Rightarrow> get_range_modifier mw d' = None
              | Some a \<Rightarrow> (case get_range_modifier mw d' of None \<Rightarrow> True | Some b \<Rightarrow> a \<le> b)))"
  using assms by (auto simp: get_range_modifier_def range_bands_ordered_def Let_def)

theorem range_modifier_bands_witness:
  "range_bands_ordered (weapon (mount PPC ''RA''))
   \<and> get_range_modifier (mount PPC ''RA'') 1 = Some 2
   \<and> get_range_modifier (mount PPC ''RA'') 3 = Some 0
   \<and> get_range_modifier (mount PPC ''RA'') 7 = Some 2
   \<and> get_range_modifier (mount PPC ''RA'') 13 = Some 4
   \<and> get_range_modifier (mount PPC ''RA'') 19 = None"
proof -
  have h: "range_bands_ordered (weapon (mount PPC ''RA''))"
    by (simp add: range_bands_ordered_def mount_def PPC_def)
  show ?thesis
    using h range_modifier_bands [OF h, of 1] range_modifier_bands [OF h, of 3]
      range_modifier_bands [OF h, of 7] range_modifier_bands [OF h, of 13]
      range_modifier_bands [OF h, of 19]
    by (simp add: mount_def PPC_def)
qed

section \<open>Heat movement penalty: properties\<close>

text \<open>
  C4. The movement-point penalty is not the number of thresholds among 5, 10, 15, 20, 25
  reached: at heat 9 (one threshold reached), 10 (two) and 25 (five) the function returns
  4, because of the early return at heat 9.
\<close>

theorem heat_mp_penalty_early_return:
  "get_heat_mp_penalty 9 = 4 \<and> get_heat_mp_penalty 10 = 4 \<and> get_heat_mp_penalty 25 = 4"
  by (simp add: get_heat_mp_penalty_def)

lemma heat_mp_penalty_values:
  "get_heat_mp_penalty h = (if h \<ge> 9 then 4 else if h \<ge> 5 then 1 else 0)"
  by (simp add: get_heat_mp_penalty_def)

section \<open>Damage pipeline: the methods unfolded\<close>

lemma apply_damage_unfold:
  "apply_damage location_id dmg is_rear m r =
     (case map_of (locations m) location_id of
        None \<Rightarrow> Some (Inl KeyError)
      | Some loc \<Rightarrow>
          if Location.destroyed loc then
            (case transfer_to loc of
               Some transfer \<Rightarrow> apply_damage transfer dmg False m r
             | None \<Rightarrow> Some (Inr (m, r)))
          else
            (let (loc1, dmg1) = absorb_armor location_id is_rear loc dmg in
             if dmg1 \<le> 0 then Some (Inr (set_location location_id loc1 m, r))
             else
               (let structure_absorbed = min (current_structure loc1) dmg1;
                    loc2 = loc1\<lparr>current_structure := current_structure loc1 - structure_absorbed\<rparr>;
                    dmg2 = dmg1 - structure_absorbed;
                    m2 = set_location location_id loc2 m
                in and_then
                     (if structure_absorbed > 0 \<and> current_structure loc2 > 0 then
                        (case roll_critical_hits r of
                           Inl e \<Rightarrow> Some (Inl e)
                         | Inr (num_crits, r') \<Rightarrow>
                             if num_crits > 0 then apply_crits location_id num_crits m2 r'
                             else Some (Inr (m2, r')))
                      else Some (Inr (m2, r)))
                     (\<lambda>m3 r3.
                        case map_of (locations m3) location_id of
                          None \<Rightarrow> Some (Inl KeyError)
                        | Some loc3 \<Rightarrow>
                            if current_structure loc3 \<le> 0 then
                              (let m4 = mark_destroyed location_id loc3 m3
                               in if is_dead m4 then Some (Inr (m4\<lparr>active := False\<rparr>, r3))
                                  else if dmg2 > 0 then
                                    (case transfer_to loc3 of
                                       Some transfer \<Rightarrow> apply_damage transfer dmg2 False m4 r3
                                     | None \<Rightarrow> Some (Inr (m4, r3)))
                                  else Some (Inr (m4, r3)))
                            else Some (Inr (m3, r3))))))"
  unfolding apply_damage_def apply_crits_def by (subst run.simps) simp

lemma apply_crits_unfold:
  "apply_crits location_id num_crits m r =
     (case map_of (locations m) location_id of
        None \<Rightarrow> Some (Inl KeyError)
      | Some loc \<Rightarrow>
          if available_slots loc = [] then Some (Inr (m, r))
          else crit_loop location_id (nat num_crits) m r)"
  unfolding apply_crits_def crit_loop_def by (subst run.simps) simp

lemma crit_loop_0: "crit_loop location_id 0 m r = Some (Inr (m, r))"
  unfolding crit_loop_def by (subst run.simps) simp

lemma crit_loop_Suc:
  "crit_loop location_id (Suc k) m r =
     (case map_of (locations m) location_id of
        None \<Rightarrow> Some (Inl KeyError)
      | Some loc \<Rightarrow>
          if available_slots loc = [] then Some (Inr (m, r))
          else
            Option.bind (pick_slot (crittable_slots loc) r) (\<lambda>(slot_idx, r1).
              let hit_item = crittable_slots loc ! slot_idx;
                  m1 = crit_hit location_id loc slot_idx m
              in and_then
                   (if take 4 hit_item = ''Ammo''
                    then ammo_explosion location_id hit_item m1 r1
                    else Some (Inr (m1, r1)))
                   (\<lambda>m2 r2. crit_loop location_id k m2 r2)))"
  unfolding crit_loop_def ammo_explosion_def by (subst run.simps) simp

lemma ammo_explosion_unfold:
  "ammo_explosion location_id ammo_slot m r =
     (case map_of (locations m) location_id of
        None \<Rightarrow> Some (Inl KeyError)
      | Some loc \<Rightarrow>
          (let (found, ws1) = find_ammo location_id ammo_slot (weapons m);
               ammo_damage = (if found \<le> 0 then 20 else found);
               m1 = m\<lparr>weapons := ws1\<rparr>
           in if has_case loc then Some (Inr (contain_explosion location_id loc m1, r))
              else apply_damage location_id ammo_damage False m1 r))"
  unfolding ammo_explosion_def apply_damage_def by (subst run.simps) simp

section \<open>Damage pipeline: what every call preserves\<close>

lemma weapons_evolve_refl: "weapons_evolve ws ws"
  by (simp add: weapons_evolve_def list_all2_same)

lemma weapons_evolve_trans: "weapons_evolve a b \<Longrightarrow> weapons_evolve b c \<Longrightarrow> weapons_evolve a c"
  unfolding weapons_evolve_def
  by (rule list_all2_trans[where ?P1.0 = "\<lambda>w w'. weapon w' = weapon w \<and> location w' = location w
                  \<and> (MountedWeapon.destroyed w \<longrightarrow> MountedWeapon.destroyed w')"
        and ?P2.0 = "\<lambda>w w'. weapon w' = weapon w \<and> location w' = location w
                  \<and> (MountedWeapon.destroyed w \<longrightarrow> MountedWeapon.destroyed w')"]) auto

lemma locations_evolve_refl: "locations_evolve ls ls"
  by (auto simp add: locations_evolve_def list_all2_same)

lemma locations_evolve_trans:
  "locations_evolve a b \<Longrightarrow> locations_evolve b c \<Longrightarrow> locations_evolve a c"
  unfolding locations_evolve_def
  by (rule list_all2_trans[where ?P1.0 = "\<lambda>(k, l) (k', l'). k' = k \<and> Location.name l' = Location.name l
                  \<and> has_case l' = has_case l
                  \<and> (Location.destroyed l \<longrightarrow> Location.destroyed l')
                  \<and> length (available_slots l') \<le> length (available_slots l)"
        and ?P2.0 = "\<lambda>(k, l) (k', l'). k' = k \<and> Location.name l' = Location.name l
                  \<and> has_case l' = has_case l
                  \<and> (Location.destroyed l \<longrightarrow> Location.destroyed l')
                  \<and> length (available_slots l') \<le> length (available_slots l)"]) auto

lemma evolves_refl: "evolves m m"
  by (simp add: evolves_def weapons_evolve_refl locations_evolve_refl)

lemma evolves_trans: "evolves a b \<Longrightarrow> evolves b c \<Longrightarrow> evolves a c"
  unfolding evolves_def
  using weapons_evolve_trans locations_evolve_trans by auto

lemma locations_evolve_update:
  assumes "map_of ls k = Some l"
    and "Location.name l' = Location.name l" and "has_case l' = has_case l"
    and "Location.destroyed l \<longrightarrow> Location.destroyed l'"
    and "length (available_slots l') \<le> length (available_slots l)"
  shows "locations_evolve ls (AList.update k l' ls)"
  using assms(1)
proof (induction ls)
  case Nil
  then show ?case by simp
next
  case (Cons a ls)
  obtain k0 l0 where a: "a = (k0, l0)" by (cases a)
  show ?case
  proof (cases "k0 = k")
    case True
    with Cons.prems a assms(2-) show ?thesis
      using locations_evolve_refl[of ls] by (simp add: locations_evolve_def)
  next
    case False
    with Cons a show ?thesis by (simp add: locations_evolve_def)
  qed
qed

lemma locations_evolve_keys: "locations_evolve ls ls' \<Longrightarrow> map fst ls' = map fst ls"
  unfolding locations_evolve_def
  by (induction ls ls' rule: list_all2_induct) auto

lemma locations_evolve_lookup:
  "locations_evolve ls ls' \<Longrightarrow> map_of ls k = Some l \<Longrightarrow>
     \<exists>l'. map_of ls' k = Some l' \<and> Location.name l' = Location.name l \<and> has_case l' = has_case l
        \<and> (Location.destroyed l \<longrightarrow> Location.destroyed l')
        \<and> length (available_slots l') \<le> length (available_slots l)"
  unfolding locations_evolve_def
  by (induction ls ls' rule: list_all2_induct) (auto split: if_splits)

lemma locations_evolve_lookup_None:
  "locations_evolve ls ls' \<Longrightarrow> map_of ls k = None \<Longrightarrow> map_of ls' k = None"
  unfolding locations_evolve_def
  by (induction ls ls' rule: list_all2_induct) (auto split: if_splits)

lemma locations_evolve_live:
  "locations_evolve ls ls' \<Longrightarrow>
     (\<Sum>(k, loc) \<leftarrow> ls'. length (available_slots loc)) \<le> (\<Sum>(k, loc) \<leftarrow> ls. length (available_slots loc))"
  unfolding locations_evolve_def
  by (induction ls ls' rule: list_all2_induct) (auto simp: add_mono)

lemma locations_evolve_names:
  "locations_evolve ls ls' \<Longrightarrow> (\<forall>(k, loc) \<in> set ls. Location.name loc = k)
     \<Longrightarrow> (\<forall>(k, loc) \<in> set ls'. Location.name loc = k)"
  unfolding locations_evolve_def
  by (induction ls ls' rule: list_all2_induct) auto

lemma evolves_names_ok: "evolves m m' \<Longrightarrow> names_ok m \<Longrightarrow> names_ok m'"
  unfolding evolves_def names_ok_def using locations_evolve_names by blast

lemma evolves_live: "evolves m m' \<Longrightarrow> live_slots m' \<le> live_slots m"
  unfolding evolves_def live_slots_def using locations_evolve_live by blast

lemma evolves_set_location:
  assumes "map_of (locations m) k = Some l"
    and "Location.name l' = Location.name l" and "has_case l' = has_case l"
    and "Location.destroyed l \<longrightarrow> Location.destroyed l'"
    and "length (available_slots l') \<le> length (available_slots l)"
  shows "evolves m (set_location k l' m)"
  using locations_evolve_update[OF assms]
  by (simp add: evolves_def set_location_def weapons_evolve_refl)

lemma absorb_armor_fields:
  assumes "absorb_armor k is_rear loc d = (loc1, d1)"
  shows "Location.name loc1 = Location.name loc \<and> has_case loc1 = has_case loc
       \<and> Location.destroyed loc1 = Location.destroyed loc
       \<and> crittable_slots loc1 = crittable_slots loc
       \<and> current_structure loc1 = current_structure loc"
  using assms by (auto simp: absorb_armor_def Let_def split: if_splits)

lemma weapons_evolve_destroy: "weapons_evolve ws (destroy_weapons_in k ws)"
  by (induction ws) (auto simp: weapons_evolve_def destroy_weapons_in_def)

lemma weapons_evolve_find_ammo: "weapons_evolve ws (snd (find_ammo k slot ws))"
proof (induction ws)
  case Nil
  then show ?case by (simp add: weapons_evolve_def)
next
  case (Cons w ws)
  then show ?case
    using weapons_evolve_refl[of ws]
    by (auto simp: weapons_evolve_def split: option.splits prod.splits)
qed

lemma weapons_evolve_crit_weapon: "weapons_evolve ws (fst (crit_weapon k item ws slots))"
proof (induction ws)
  case Nil
  then show ?case by (simp add: weapons_evolve_def)
next
  case (Cons w ws)
  then show ?case
    using weapons_evolve_refl[of ws]
    by (auto simp: weapons_evolve_def split: prod.splits)
qed

lemma live_after_marking:
  "length (filter (\<lambda>s. s \<noteq> ''DESTROYED'') (map (\<lambda>s. if s = item then ''DESTROYED'' else s) slots))
     \<le> length (filter (\<lambda>s. s \<noteq> ''DESTROYED'') slots)"
  by (induction slots) auto

lemma live_after_marking_comp:
  "length (filter ((\<lambda>s. s \<noteq> ''DESTROYED'') \<circ> (\<lambda>s. if s = item then ''DESTROYED'' else s)) slots)
     \<le> length (filter (\<lambda>s. s \<noteq> ''DESTROYED'') slots)"
  by (induction slots) auto

lemma crit_weapon_slots:
  "length (filter (\<lambda>s. s \<noteq> ''DESTROYED'') (snd (crit_weapon k item ws slots)))
     \<le> length (filter (\<lambda>s. s \<noteq> ''DESTROYED'') slots)"
  by (induction ws) (auto simp: live_after_marking_comp split: prod.splits)

lemma live_after_hit:
  assumes "i < length slots" and "slots ! i \<noteq> ''DESTROYED''"
  shows "Suc (length (filter (\<lambda>s. s \<noteq> ''DESTROYED'') (slots[i := ''DESTROYED''])))
           = length (filter (\<lambda>s. s \<noteq> ''DESTROYED'') slots)"
  using assms
proof (induction slots arbitrary: i)
  case Nil
  then show ?case by simp
next
  case (Cons s slots)
  then show ?case by (cases i) auto
qed

lemma crit_hit_location:
  assumes "map_of (locations m) k = Some loc"
  shows "\<exists>slots. map_of (locations (crit_hit k loc i m)) k = Some (loc\<lparr>crittable_slots := slots\<rparr>)
           \<and> length (filter (\<lambda>s. s \<noteq> ''DESTROYED'') slots)
               \<le> length (filter (\<lambda>s. s \<noteq> ''DESTROYED'') ((crittable_slots loc)[i := ''DESTROYED'']))"
  using crit_weapon_slots[of k "crittable_slots loc ! i" "weapons m" "(crittable_slots loc)[i := ''DESTROYED'']"]
  by (auto simp: crit_hit_def Let_def set_location_def update_conv' split: prod.splits)

lemma evolves_crit_hit:
  assumes "map_of (locations m) k = Some loc"
    and "i < length (crittable_slots loc)" and "crittable_slots loc ! i \<noteq> ''DESTROYED''"
  shows "evolves m (crit_hit k loc i m)"
proof -
  obtain ws1 slots2 where cw: "crit_weapon k (crittable_slots loc ! i) (weapons m)
      ((crittable_slots loc)[i := ''DESTROYED'']) = (ws1, slots2)"
    by (cases "crit_weapon k (crittable_slots loc ! i) (weapons m) ((crittable_slots loc)[i := ''DESTROYED''])")
  have le: "length (filter (\<lambda>s. s \<noteq> ''DESTROYED'') slots2)
      \<le> length (filter (\<lambda>s. s \<noteq> ''DESTROYED'') (crittable_slots loc))"
    using crit_weapon_slots[of k "crittable_slots loc ! i" "weapons m" "(crittable_slots loc)[i := ''DESTROYED'']"]
      live_after_hit[OF assms(2,3)] cw by simp
  have "locations_evolve (locations m) (AList.update k (loc\<lparr>crittable_slots := slots2\<rparr>) (locations m))"
    by (rule locations_evolve_update[OF assms(1)]) (use le in \<open>simp_all add: available_slots_def\<close>)
  moreover have "weapons_evolve (weapons m) ws1"
    using weapons_evolve_crit_weapon[of "weapons m" k "crittable_slots loc ! i" "(crittable_slots loc)[i := ''DESTROYED'']"] cw
    by simp
  ultimately show ?thesis
    by (simp add: evolves_def crit_hit_def Let_def cw set_location_def)
qed

lemma evolves_mark_destroyed:
  assumes "map_of (locations m) k = Some loc"
  shows "evolves m (mark_destroyed k loc m)"
proof -
  have "locations_evolve (locations m) (AList.update k (loc\<lparr>Location.destroyed := True\<rparr>) (locations m))"
    by (rule locations_evolve_update[OF assms]) (simp_all add: available_slots_def)
  then show ?thesis
    by (simp add: evolves_def mark_destroyed_def set_location_def weapons_evolve_destroy)
qed

lemma evolves_contain_explosion:
  assumes "map_of (locations m) k = Some loc"
  shows "evolves m (contain_explosion k loc m)"
proof -
  have "locations_evolve (locations m) (AList.update k
      (loc\<lparr>current_structure := 0, current_armor := 0, rear_current_armor := 0,
           Location.destroyed := True\<rparr>) (locations m))"
    by (rule locations_evolve_update[OF assms]) (simp_all add: available_slots_def)
  then show ?thesis
    by (simp add: evolves_def contain_explosion_def set_location_def weapons_evolve_destroy)
qed

lemma evolves_find_ammo: "evolves m (m\<lparr>weapons := snd (find_ammo k slot (weapons m))\<rparr>)"
  by (simp add: evolves_def locations_evolve_refl weapons_evolve_find_ammo)

lemma evolves_inactive: "evolves m (m\<lparr>active := False\<rparr>)"
  by (simp add: evolves_def locations_evolve_refl weapons_evolve_refl)

lemma later_refl: "later r r"
  unfolding later_def by (rule exI[of _ 0]) simp

lemma later_trans: "later a b \<Longrightarrow> later b c \<Longrightarrow> later a c"
  unfolding later_def by (metis sdrop_add)

lemma later_stl: "later r (stl r)"
  unfolding later_def by (rule exI[of _ 1]) simp

lemma later_roll_2d6: "roll_2d6 r = (x, r') \<Longrightarrow> later r r'"
  unfolding later_def roll_2d6_def randint_def
  by (intro exI[of _ 2]) (auto simp: numeral_2_eq_2)

lemma later_roll_critical_hits: "roll_critical_hits r = Inr (n, r') \<Longrightarrow> later r r'"
  unfolding roll_critical_hits_def
  by (auto simp: Let_def split: prod.splits option.splits dest: later_roll_2d6)

lemma step_ok_refl: "step_ok m r m r"
  by (simp add: step_ok_def evolves_refl later_refl)

lemma step_ok_trans: "step_ok m r m1 r1 \<Longrightarrow> step_ok m1 r1 m2 r2 \<Longrightarrow> step_ok m r m2 r2"
  unfolding step_ok_def using evolves_trans later_trans by blast

lemma pick_slot_sound:
  assumes "pick_slot slots r = Some (i, r')" and "slots \<noteq> []"
  shows "i < length slots \<and> slots ! i \<noteq> ''DESTROYED'' \<and> later r r'"
proof -
  let ?P = "\<lambda>slots r res. slots \<noteq> [] \<longrightarrow>
     fst res < length slots \<and> slots ! fst res \<noteq> ''DESTROYED'' \<and> later r (snd res)"
  have "?P slots r (i, r')"
  proof (rule pick_slot.raw_induct[where P = ?P, OF _ assms(1)])
    fix pick slots r res
    assume IH: "\<And>slots r res. pick slots r = Some res \<Longrightarrow> ?P slots r res"
      and body: "(let (slot_idx, r') = randint 0 (int (length slots) - 1) r in
          if slots ! nat slot_idx = ''DESTROYED'' then pick slots r'
          else Some (nat slot_idx, r')) = Some res"
    show "?P slots r res"
    proof (cases "slots ! nat (int (shd r) mod int (length slots)) = ''DESTROYED''")
      case True
      with body have "pick slots (stl r) = Some res"
        by (simp add: randint_def)
      from IH[OF this] show ?thesis
        using later_trans[OF later_stl] by blast
    next
      case False
      with body have res: "res = (nat (int (shd r) mod int (length slots)), stl r)"
        by (auto simp add: randint_def)
      show ?thesis
      proof
        assume ne: "slots \<noteq> []"
        then have "nat (int (shd r) mod int (length slots)) < length slots"
          by (simp add: nat_less_iff)
        with False res show "fst res < length slots \<and> slots ! fst res \<noteq> ''DESTROYED'' \<and> later r (snd res)"
          by (simp add: later_stl)
      qed
    qed
  qed
  with assms(2) show ?thesis by simp
qed

lemma and_then_Some:
  assumes "and_then x f = Some res"
  obtains e where "x = Some (Inl e)" and "res = Inl e"
  | m r where "x = Some (Inr (m, r))" and "f m r = Some res"
  using assms unfolding and_then_def
  by (auto split: Option.bind_splits sum.splits prod.splits)

lemma run_step_ok:
  assumes "run c m r = Some (Inr (m', r'))"
  shows "step_ok m r m' r'"
proof -
  let ?P = "\<lambda>(c::call) m r (res::error + Mech \<times> rng). \<forall>m' r'. res = Inr (m', r') \<longrightarrow> step_ok m r m' r'"
  have "?P c m r (Inr (m', r'))"
  proof (rule run.raw_induct[where P = ?P, OF _ assms])
    fix f c m r res
    assume IH: "\<And>c m r res. f c m r = Some res \<Longrightarrow> ?P c m r res"
    have IH': "step_ok m r m' r'" if "f c m r = Some (Inr (m', r'))" for c m r m' r'
      using IH[OF that] by simp
    assume body: "(case c of
      ApplyDamage location_id dmg is_rear \<Rightarrow>
        (case map_of (locations m) location_id of
          None \<Rightarrow> Some (Inl KeyError)
        | Some loc \<Rightarrow>
            if Location.destroyed loc then
              (case transfer_to loc of
                Some transfer \<Rightarrow> f (ApplyDamage transfer dmg False) m r
              | None \<Rightarrow> Some (Inr (m, r)))
            else
              (let (loc1, dmg1) = absorb_armor location_id is_rear loc dmg in
               if dmg1 \<le> 0 then Some (Inr (set_location location_id loc1 m, r))
               else
                 (let structure_absorbed = min (current_structure loc1) dmg1;
                      loc2 = loc1\<lparr>current_structure := current_structure loc1 - structure_absorbed\<rparr>;
                      dmg2 = dmg1 - structure_absorbed;
                      m2 = set_location location_id loc2 m
                  in and_then
                       (if structure_absorbed > 0 \<and> current_structure loc2 > 0 then
                          (case roll_critical_hits r of
                            Inl e \<Rightarrow> Some (Inl e)
                          | Inr (num_crits, r') \<Rightarrow>
                              if num_crits > 0 then f (ApplyCrits location_id num_crits) m2 r'
                              else Some (Inr (m2, r')))
                        else Some (Inr (m2, r)))
                       (\<lambda>m3 r3.
                          case map_of (locations m3) location_id of
                            None \<Rightarrow> Some (Inl KeyError)
                          | Some loc3 \<Rightarrow>
                              if current_structure loc3 \<le> 0 then
                                (let m4 = mark_destroyed location_id loc3 m3
                                 in if is_dead m4 then Some (Inr (m4\<lparr>active := False\<rparr>, r3))
                                    else if dmg2 > 0 then
                                      (case transfer_to loc3 of
                                        Some transfer \<Rightarrow> f (ApplyDamage transfer dmg2 False) m4 r3
                                      | None \<Rightarrow> Some (Inr (m4, r3)))
                                    else Some (Inr (m4, r3)))
                              else Some (Inr (m3, r3))))))
    | ApplyCrits location_id num_crits \<Rightarrow>
        (case map_of (locations m) location_id of
          None \<Rightarrow> Some (Inl KeyError)
        | Some loc \<Rightarrow>
            if available_slots loc = [] then Some (Inr (m, r))
            else f (CritLoop location_id (nat num_crits)) m r)
    | CritLoop location_id n \<Rightarrow>
        (case n of
          0 \<Rightarrow> Some (Inr (m, r))
        | Suc k \<Rightarrow>
            (case map_of (locations m) location_id of
              None \<Rightarrow> Some (Inl KeyError)
            | Some loc \<Rightarrow>
                if available_slots loc = [] then Some (Inr (m, r))
                else
                  Option.bind (pick_slot (crittable_slots loc) r) (\<lambda>(slot_idx, r1).
                    let hit_item = crittable_slots loc ! slot_idx;
                        m1 = crit_hit location_id loc slot_idx m
                    in and_then
                         (if take 4 hit_item = ''Ammo''
                          then f (AmmoExplosion location_id hit_item) m1 r1
                          else Some (Inr (m1, r1)))
                         (\<lambda>m2 r2. f (CritLoop location_id k) m2 r2))))
    | AmmoExplosion location_id ammo_slot \<Rightarrow>
        (case map_of (locations m) location_id of
          None \<Rightarrow> Some (Inl KeyError)
        | Some loc \<Rightarrow>
            (let (found, ws1) = find_ammo location_id ammo_slot (weapons m);
                 ammo_damage = (if found \<le> 0 then 20 else found);
                 m1 = m\<lparr>weapons := ws1\<rparr>
             in if has_case loc then Some (Inr (contain_explosion location_id loc m1, r))
                else f (ApplyDamage location_id ammo_damage False) m1 r))) = Some res"
    show "?P c m r res"
    proof (intro allI impI)
      fix m' r' assume res: "res = Inr (m', r')"
      show "step_ok m r m' r'"
      proof (cases c)
        case (ApplyDamage k d is_rear)
        show ?thesis
        proof (cases "map_of (locations m) k")
          case None
          with body ApplyDamage res show ?thesis by simp
        next
          case (Some loc)
          show ?thesis
          proof (cases "Location.destroyed loc")
            case True
            with body ApplyDamage Some res show ?thesis
              by (auto split: option.splits intro: IH' step_ok_refl)
          next
            case False
            obtain loc1 d1 where aa: "absorb_armor k is_rear loc d = (loc1, d1)"
              by (cases "absorb_armor k is_rear loc d")
            note af = absorb_armor_fields[OF aa]
            show ?thesis
            proof (cases "d1 \<le> 0")
              case True
              with body ApplyDamage Some res False aa
              have "m' = set_location k loc1 m" "r' = r" by simp_all
              moreover have "evolves m (set_location k loc1 m)"
                by (rule evolves_set_location[OF Some]) (simp_all add: af available_slots_def)
              ultimately show ?thesis by (simp add: step_ok_def later_refl)
            next
              case d1: False
              define sa where "sa = min (current_structure loc1) d1"
              define loc2 where "loc2 = loc1\<lparr>current_structure := current_structure loc1 - sa\<rparr>"
              define m2 where "m2 = set_location k loc2 m"
              have e2: "evolves m m2"
                unfolding m2_def
                by (rule evolves_set_location[OF Some]) (simp_all add: af loc2_def available_slots_def)
              have at: "and_then
                       (if sa > 0 \<and> current_structure loc2 > 0 then
                          (case roll_critical_hits r of
                            Inl e \<Rightarrow> Some (Inl e)
                          | Inr (num_crits, r') \<Rightarrow>
                              if num_crits > 0 then f (ApplyCrits k num_crits) m2 r'
                              else Some (Inr (m2, r')))
                        else Some (Inr (m2, r)))
                       (\<lambda>m3 r3.
                          case map_of (locations m3) k of
                            None \<Rightarrow> Some (Inl KeyError)
                          | Some loc3 \<Rightarrow>
                              if current_structure loc3 \<le> 0 then
                                (let m4 = mark_destroyed k loc3 m3
                                 in if is_dead m4 then Some (Inr (m4\<lparr>active := False\<rparr>, r3))
                                    else if d1 - sa > 0 then
                                      (case transfer_to loc3 of
                                        Some transfer \<Rightarrow> f (ApplyDamage transfer (d1 - sa) False) m4 r3
                                      | None \<Rightarrow> Some (Inr (m4, r3)))
                                    else Some (Inr (m4, r3)))
                              else Some (Inr (m3, r3))) = Some (Inr (m', r'))"
                using body ApplyDamage Some res False aa d1
                unfolding m2_def loc2_def sa_def by (simp add: Let_def)
              from at show ?thesis
              proof (cases rule: and_then_Some)
                case (1 e)
                then show ?thesis by simp
              next
                case (2 m3 r3)
                have s3: "step_ok m r m3 r3"
                  using 2(1) e2
                  by (auto simp: step_ok_def later_refl split: if_splits sum.splits prod.splits
                      dest!: IH' later_roll_critical_hits intro: evolves_trans later_trans)
                show ?thesis
                proof (cases "map_of (locations m3) k")
                  case None
                  with 2(2) show ?thesis by simp
                next
                  case l3: (Some loc3)
                  have e4: "evolves m3 (mark_destroyed k loc3 m3)"
                    by (rule evolves_mark_destroyed[OF l3])
                  have s4: "step_ok m r (mark_destroyed k loc3 m3) r3"
                    using s3 e4 by (auto simp: step_ok_def intro: evolves_trans)
                  have s5: "step_ok m r ((mark_destroyed k loc3 m3)\<lparr>active := False\<rparr>) r3"
                    using s4 evolves_inactive[of "mark_destroyed k loc3 m3"]
                    by (auto simp: step_ok_def intro: evolves_trans)
                  from 2(2) l3 show ?thesis
                    using s3 s4 s5
                    by (auto simp: Let_def split: if_splits option.splits
                        dest!: IH' intro: step_ok_trans)
                qed
              qed
            qed
          qed
        qed
      next
        case (ApplyCrits k n)
        with body res show ?thesis
          by (auto split: option.splits if_splits intro: IH' step_ok_refl)
      next
        case (CritLoop k n)
        show ?thesis
        proof (cases n)
          case 0
          with body res CritLoop show ?thesis by (simp add: step_ok_refl)
        next
          case (Suc j)
          show ?thesis
          proof (cases "map_of (locations m) k")
            case None
            with body CritLoop Suc res show ?thesis by simp
          next
            case (Some loc)
            show ?thesis
            proof (cases "available_slots loc = []")
              case True
              with body CritLoop Suc res Some show ?thesis by (simp add: step_ok_refl)
            next
              case False
              then have ne: "crittable_slots loc \<noteq> []"
                by (auto simp: available_slots_def)
              from body CritLoop Suc res Some False
              obtain i r1 where pk: "pick_slot (crittable_slots loc) r = Some (i, r1)"
                and at: "and_then
                         (if take 4 (crittable_slots loc ! i) = ''Ammo''
                          then f (AmmoExplosion k (crittable_slots loc ! i)) (crit_hit k loc i m) r1
                          else Some (Inr (crit_hit k loc i m, r1)))
                         (\<lambda>m2 r2. f (CritLoop k j) m2 r2) = Some (Inr (m', r'))"
                by (auto simp: Let_def split: Option.bind_splits)
              from pick_slot_sound[OF pk ne]
              have i: "i < length (crittable_slots loc)" "crittable_slots loc ! i \<noteq> ''DESTROYED''"
                and l1: "later r r1" by simp_all
              have s1: "step_ok m r (crit_hit k loc i m) r1"
                using evolves_crit_hit[OF Some i] l1 by (simp add: step_ok_def)
              from at show ?thesis
              proof (cases rule: and_then_Some)
                case (1 e)
                then show ?thesis by simp
              next
                case (2 m2 r2)
                have "step_ok (crit_hit k loc i m) r1 m2 r2"
                  using 2(1) by (auto split: if_splits intro: IH' step_ok_refl)
                with s1 IH'[OF 2(2)] show ?thesis
                  by (blast intro: step_ok_trans)
              qed
            qed
          qed
        qed
      next
        case (AmmoExplosion k slot)
        show ?thesis
        proof (cases "map_of (locations m) k")
          case None
          with body AmmoExplosion res show ?thesis by simp
        next
          case (Some loc)
          obtain found ws1 where fa: "find_ammo k slot (weapons m) = (found, ws1)"
            by (cases "find_ammo k slot (weapons m)")
          have e1: "evolves m (m\<lparr>weapons := ws1\<rparr>)"
            using evolves_find_ammo[of m k slot] fa by simp
          have l1: "map_of (locations (m\<lparr>weapons := ws1\<rparr>)) k = Some loc"
            using Some by simp
          show ?thesis
          proof (cases "has_case loc")
            case True
            with body AmmoExplosion res Some fa
            have "m' = contain_explosion k loc (m\<lparr>weapons := ws1\<rparr>)" "r' = r" by simp_all
            then show ?thesis
              using e1 evolves_contain_explosion[OF l1]
              by (auto simp: step_ok_def later_refl intro: evolves_trans)
          next
            case False
            with body AmmoExplosion res Some fa
            have "f (ApplyDamage k (if found \<le> 0 then 20 else found) False) (m\<lparr>weapons := ws1\<rparr>) r
                    = Some (Inr (m', r'))"
              by (simp add: Let_def)
            from IH'[OF this] e1 show ?thesis
              by (auto simp: step_ok_def intro: evolves_trans)
          qed
        qed
      qed
    qed
  qed
  then show ?thesis by simp
qed

section \<open>Ammo explosion contained by CASE\<close>

lemma destroy_weapons_in_destroyed:
  "mw \<in> set (destroy_weapons_in k ws) \<Longrightarrow> location mw = k \<Longrightarrow> MountedWeapon.destroyed mw"
proof (induction ws)
  case Nil
  then show ?case by (simp add: destroy_weapons_in_def)
next
  case (Cons w ws)
  from Cons.prems(1) have "mw = (if location w = k then w\<lparr>MountedWeapon.destroyed := True\<rparr> else w)
      \<or> mw \<in> set (destroy_weapons_in k ws)"
    by (simp add: destroy_weapons_in_def)
  then show ?case
  proof
    assume mw: "mw = (if location w = k then w\<lparr>MountedWeapon.destroyed := True\<rparr> else w)"
    show ?thesis
    proof (cases "location w = k")
      case True
      with mw have "mw = w\<lparr>MountedWeapon.destroyed := True\<rparr>" by simp
      then show ?thesis by simp
    next
      case False
      with mw have "mw = w" by simp
      with False Cons.prems(2) show ?thesis by simp
    qed
  next
    assume "mw \<in> set (destroy_weapons_in k ws)"
    then show ?thesis using Cons.IH Cons.prems(2) by blast
  qed
qed

lemma contain_explosion_effect:
  assumes "map_of (locations m) k = Some loc"
  shows "map_of (locations (contain_explosion k loc m)) k =
           Some (loc\<lparr>current_structure := 0, current_armor := 0, rear_current_armor := 0,
                     Location.destroyed := True\<rparr>)"
    and "\<forall>mw \<in> set (weapons (contain_explosion k loc m)). location mw = k \<longrightarrow> MountedWeapon.destroyed mw"
    and "active (contain_explosion k loc m) = active m"
    and "engine_type (contain_explosion k loc m) = engine_type m"
proof -
  show "map_of (locations (contain_explosion k loc m)) k =
           Some (loc\<lparr>current_structure := 0, current_armor := 0, rear_current_armor := 0,
                     Location.destroyed := True\<rparr>)"
    by (simp add: contain_explosion_def set_location_def update_conv')
  have "weapons (contain_explosion k loc m) = destroy_weapons_in k (weapons m)"
    by (simp add: contain_explosion_def)
  then show "\<forall>mw \<in> set (weapons (contain_explosion k loc m)). location mw = k \<longrightarrow> MountedWeapon.destroyed mw"
    using destroy_weapons_in_destroyed by metis
  show "active (contain_explosion k loc m) = active m"
    and "engine_type (contain_explosion k loc m) = engine_type m"
    by (simp_all add: contain_explosion_def set_location_def)
qed

lemma ammo_explosion_contained:
  assumes "map_of (locations m) location_id = Some loc" and "has_case loc"
  shows "\<exists>m' loc'. ammo_explosion location_id ammo_slot m r = Some (Inr (m', r))
           \<and> map_of (locations m') location_id = Some loc'
           \<and> current_armor loc' = 0 \<and> rear_current_armor loc' = 0 \<and> current_structure loc' = 0
           \<and> Location.destroyed loc'
           \<and> (\<forall>mw \<in> set (weapons m'). location mw = location_id \<longrightarrow> MountedWeapon.destroyed mw)
           \<and> active m' = active m
           \<and> (location_id \<in> {''CT'', ''HD''} \<or> engine_type m = ''xl'' \<and> location_id \<in> {''LT'', ''RT''}
                \<longrightarrow> is_dead m')"
proof -
  obtain found ws1 where fa: "find_ammo location_id ammo_slot (weapons m) = (found, ws1)"
    by (cases "find_ammo location_id ammo_slot (weapons m)")
  let ?m1 = "m\<lparr>weapons := ws1\<rparr>"
  let ?m' = "contain_explosion location_id loc ?m1"
  have l1: "map_of (locations ?m1) location_id = Some loc"
    using assms(1) by simp
  have run: "ammo_explosion location_id ammo_slot m r = Some (Inr (?m', r))"
    by (subst ammo_explosion_unfold) (simp add: assms fa)
  note eff = contain_explosion_effect[OF l1]
  have dead: "is_dead ?m'"
    if "location_id \<in> {''CT'', ''HD''} \<or> engine_type m = ''xl'' \<and> location_id \<in> {''LT'', ''RT''}"
    using that eff(1,4) by (auto simp: is_dead_def loc_destroyed_def)
  show ?thesis
    using run eff dead
    by (intro exI[of _ ?m'] exI[of _ "loc\<lparr>current_structure := 0, current_armor := 0,
          rear_current_armor := 0, Location.destroyed := True\<rparr>"]) simp
qed

section \<open>Damage transfer and location destruction\<close>

lemma absorb_armor_excess:
  assumes "0 \<le> armor_pool k is_rear loc" and "armor_pool k is_rear loc \<le> d"
  shows "absorb_armor k is_rear loc d =
     ((if is_rear \<and> k \<in> REAR_ARMOR_LOCATIONS then loc\<lparr>rear_current_armor := 0\<rparr>
       else loc\<lparr>current_armor := 0\<rparr>), d - armor_pool k is_rear loc)"
proof (cases "is_rear \<and> k \<in> REAR_ARMOR_LOCATIONS")
  case True
  then show ?thesis
    using assms by (cases "rear_current_armor loc = 0") (auto simp: absorb_armor_def armor_pool_def Let_def)
next
  case False
  then show ?thesis
    using assms by (cases "current_armor loc = 0") (auto simp: absorb_armor_def armor_pool_def Let_def)
qed

lemma apply_damage_destroyed:
  assumes "map_of (locations m) k = Some loc" and "Location.destroyed loc"
  shows "apply_damage k d is_rear m r =
     (case transfer_to loc of Some t \<Rightarrow> apply_damage t d False m r | None \<Rightarrow> Some (Inr (m, r)))"
  by (subst apply_damage_unfold) (simp add: assms)

lemma apply_damage_depletes:
  assumes "map_of (locations m) k = Some loc" and "\<not> Location.destroyed loc"
    and "absorb_armor k is_rear loc d = (loc1, d1)" and "0 < d1" and "current_structure loc1 \<le> d1"
  shows "apply_damage k d is_rear m r =
     (let m4 = mark_destroyed k (loc1\<lparr>current_structure := 0\<rparr>)
                 (set_location k (loc1\<lparr>current_structure := 0\<rparr>) m)
      in if is_dead m4 then Some (Inr (m4\<lparr>active := False\<rparr>, r))
         else if d1 - current_structure loc1 > 0 then
           (case transfer_to loc of
              Some t \<Rightarrow> apply_damage t (d1 - current_structure loc1) False m4 r
            | None \<Rightarrow> Some (Inr (m4, r)))
         else Some (Inr (m4, r)))"
proof -
  have tr: "transfer_to (loc1\<lparr>current_structure := 0\<rparr>) = transfer_to loc"
    using absorb_armor_fields[OF assms(3)] by (simp add: transfer_to_def)
  have mn: "min (current_structure loc1) d1 = current_structure loc1"
    using assms(5) by simp
  have pos: "\<not> d1 \<le> 0"
    using assms(4) by simp
  show ?thesis
    by (subst apply_damage_unfold)
      (simp add: assms(1-3) pos mn and_then_def Let_def set_location_def update_conv' tr)
qed

lemma mark_destroyed_wrecked:
  assumes "0 \<le> armor_pool k is_rear loc" and "armor_pool k is_rear loc \<le> d"
    and "absorb_armor k is_rear loc d = (loc1, d1)"
  shows "mark_destroyed k (loc1\<lparr>current_structure := 0\<rparr>)
           (set_location k (loc1\<lparr>current_structure := 0\<rparr>) m)
         = (set_location k (wrecked k is_rear loc) m)\<lparr>weapons := destroy_weapons_in k (weapons m)\<rparr>"
  using assms(3) unfolding absorb_armor_excess[OF assms(1,2)]
  by (auto simp: mark_destroyed_def set_location_def wrecked_def)

lemma evolves_loc_destroyed:
  assumes "evolves a b" and "loc_destroyed a k"
  shows "loc_destroyed b k"
proof -
  from assms(2) obtain l where l: "map_of (locations a) k = Some l" "Location.destroyed l"
    by (auto simp: loc_destroyed_def split: option.splits)
  from assms(1) have "locations_evolve (locations a) (locations b)"
    by (simp add: evolves_def)
  from locations_evolve_lookup[OF this l(1)] l(2) show ?thesis
    by (auto simp: loc_destroyed_def)
qed

lemma weapons_evolve_destroyed_in:
  assumes "weapons_evolve ws ws'"
    and "\<forall>mw \<in> set ws. location mw = k \<longrightarrow> MountedWeapon.destroyed mw"
  shows "\<forall>mw \<in> set ws'. location mw = k \<longrightarrow> MountedWeapon.destroyed mw"
  using assms unfolding weapons_evolve_def
  by (induction ws ws' rule: list_all2_induct) auto

lemma evolves_weapons_destroyed_in:
  "evolves a b \<Longrightarrow> weapons_destroyed_in k a \<Longrightarrow> weapons_destroyed_in k b"
  unfolding evolves_def weapons_destroyed_in_def using weapons_evolve_destroyed_in by blast

lemma mark_destroyed_effect:
  "loc_destroyed (mark_destroyed k loc m) k" "weapons_destroyed_in k (mark_destroyed k loc m)"
proof -
  show "loc_destroyed (mark_destroyed k loc m) k"
    by (simp add: mark_destroyed_def set_location_def loc_destroyed_def update_conv')
  have "weapons (mark_destroyed k loc m) = destroy_weapons_in k (weapons m)"
    by (simp add: mark_destroyed_def)
  then show "weapons_destroyed_in k (mark_destroyed k loc m)"
    unfolding weapons_destroyed_in_def using destroy_weapons_in_destroyed by metis
qed

lemma apply_damage_step_ok:
  "apply_damage k d is_rear m r = Some (Inr (m', r')) \<Longrightarrow> step_ok m r m' r'"
  unfolding apply_damage_def by (rule run_step_ok)

text \<open>
  C8. When a hit on a location that is not yet destroyed gets through the armor and the
  damage left is at least the location's structure, no critical roll is made; the
  location is marked destroyed and so is every weapon mounted there; if the unit is then
  dead the call returns at once with the unit inactive, the random stream untouched and
  nothing transferred; and in every state the call returns, the location and the weapons
  mounted there are destroyed.
\<close>

theorem structure_depleted_destroys:
  assumes "map_of (locations m) location_id = Some loc" and "\<not> Location.destroyed loc"
    and "absorb_armor location_id is_rear loc dmg = (loc1, dmg1)"
    and "0 < dmg1" and "current_structure loc1 \<le> dmg1"
  shows "(let m4 = mark_destroyed location_id (loc1\<lparr>current_structure := 0\<rparr>)
                     (set_location location_id (loc1\<lparr>current_structure := 0\<rparr>) m)
          in loc_destroyed m4 location_id \<and> weapons_destroyed_in location_id m4
             \<and> (is_dead m4 \<longrightarrow>
                  apply_damage location_id dmg is_rear m r = Some (Inr (m4\<lparr>active := False\<rparr>, r)))
             \<and> (\<not> is_dead m4 \<longrightarrow>
                  apply_damage location_id dmg is_rear m r =
                    (if dmg1 - current_structure loc1 > 0 then
                       (case transfer_to loc of
                          Some t \<Rightarrow> apply_damage t (dmg1 - current_structure loc1) False m4 r
                        | None \<Rightarrow> Some (Inr (m4, r)))
                     else Some (Inr (m4, r)))))
       \<and> (\<forall>m' r'. apply_damage location_id dmg is_rear m r = Some (Inr (m', r')) \<longrightarrow>
             loc_destroyed m' location_id \<and> weapons_destroyed_in location_id m')"
proof -
  define m4 where "m4 = mark_destroyed location_id (loc1\<lparr>current_structure := 0\<rparr>)
                     (set_location location_id (loc1\<lparr>current_structure := 0\<rparr>) m)"
  note eq = apply_damage_depletes[OF assms, of r, folded m4_def]
  have d4: "loc_destroyed m4 location_id" and w4: "weapons_destroyed_in location_id m4"
    unfolding m4_def by (rule mark_destroyed_effect(1), rule mark_destroyed_effect(2))
  have fin: "loc_destroyed m' location_id \<and> weapons_destroyed_in location_id m'"
    if ret: "apply_damage location_id dmg is_rear m r = Some (Inr (m', r'))" for m' r'
  proof -
    have "evolves m4 m'"
    proof (cases "is_dead m4")
      case True
      with eq ret have "m' = m4\<lparr>active := False\<rparr>" by (simp add: Let_def)
      then show ?thesis using evolves_inactive by simp
    next
      case dead: False
      show ?thesis
      proof (cases "dmg1 - current_structure loc1 > 0")
        case True
        show ?thesis
        proof (cases "transfer_to loc")
          case None
          with eq ret dead True have "m' = m4" by (simp add: Let_def)
          then show ?thesis by (simp add: evolves_refl)
        next
          case (Some t)
          with eq ret dead True
          have "apply_damage t (dmg1 - current_structure loc1) False m4 r = Some (Inr (m', r'))"
            by (simp add: Let_def)
          from apply_damage_step_ok[OF this] show ?thesis by (simp add: step_ok_def)
        qed
      next
        case False
        with eq ret dead have "m' = m4" by (simp add: Let_def)
        then show ?thesis by (simp add: evolves_refl)
      qed
    qed
    then show ?thesis
      using d4 w4 evolves_loc_destroyed evolves_weapons_destroyed_in by blast
  qed
  have "loc_destroyed m4 location_id \<and> weapons_destroyed_in location_id m4
             \<and> (is_dead m4 \<longrightarrow>
                  apply_damage location_id dmg is_rear m r = Some (Inr (m4\<lparr>active := False\<rparr>, r)))
             \<and> (\<not> is_dead m4 \<longrightarrow>
                  apply_damage location_id dmg is_rear m r =
                    (if dmg1 - current_structure loc1 > 0 then
                       (case transfer_to loc of
                          Some t \<Rightarrow> apply_damage t (dmg1 - current_structure loc1) False m4 r
                        | None \<Rightarrow> Some (Inr (m4, r)))
                     else Some (Inr (m4, r))))"
    using d4 w4 eq by (simp add: Let_def)
  then show ?thesis
    using fin unfolding m4_def Let_def by blast
qed

lemma example_mech_LT:
  "map_of (locations (example_mech engine)) ''LT''
     = Some (new_location ''LT'' 2 1 5 [''Machine Gun'', ''Ammo Machine Gun''] True)"
  by (simp add: example_mech_def)

theorem structure_depleted_destroys_witness:
  "map_of (locations (example_mech ''xl'')) ''LT''
     = Some (new_location ''LT'' 2 1 5 [''Machine Gun'', ''Ammo Machine Gun''] True)
   \<and> absorb_armor ''LT'' False (new_location ''LT'' 2 1 5 [''Machine Gun'', ''Ammo Machine Gun''] True) 10
     = ((new_location ''LT'' 2 1 5 [''Machine Gun'', ''Ammo Machine Gun''] True)\<lparr>current_armor := 0\<rparr>, 8)
   \<and> (\<exists>m'. apply_damage ''LT'' 10 False (example_mech ''xl'') (sconst 0) = Some (Inr (m', sconst 0))
         \<and> \<not> active m' \<and> loc_destroyed m' ''LT'' \<and> weapons_destroyed_in ''LT'' m')"
proof -
  let ?loc = "new_location ''LT'' 2 1 5 [''Machine Gun'', ''Ammo Machine Gun''] True"
  let ?loc1 = "?loc\<lparr>current_armor := 0\<rparr>"
  let ?m4 = "mark_destroyed ''LT'' (?loc1\<lparr>current_structure := 0\<rparr>)
               (set_location ''LT'' (?loc1\<lparr>current_structure := 0\<rparr>) (example_mech ''xl''))"
  have nd: "\<not> Location.destroyed ?loc"
    by (simp add: new_location_def)
  have aa: "absorb_armor ''LT'' False ?loc 10 = (?loc1, 8)"
    by (simp add: absorb_armor_def new_location_def)
  have p: "(0::int) < 8" "current_structure ?loc1 \<le> 8"
    by (simp_all add: new_location_def)
  have dead: "is_dead ?m4"
    by (simp add: is_dead_def loc_destroyed_def mark_destroyed_def set_location_def
        example_mech_def new_location_def)
  note T = structure_depleted_destroys[OF example_mech_LT nd aa p, of "''xl''" "sconst 0", unfolded Let_def]
  from T dead have run: "apply_damage ''LT'' 10 False (example_mech ''xl'') (sconst 0)
      = Some (Inr (?m4\<lparr>active := False\<rparr>, sconst 0))"
    by blast
  from T run have "loc_destroyed (?m4\<lparr>active := False\<rparr>) ''LT''
      \<and> weapons_destroyed_in ''LT'' (?m4\<lparr>active := False\<rparr>)"
    by blast
  with run have "\<exists>m'. apply_damage ''LT'' 10 False (example_mech ''xl'') (sconst 0) = Some (Inr (m', sconst 0))
         \<and> \<not> active m' \<and> loc_destroyed m' ''LT'' \<and> weapons_destroyed_in ''LT'' m'"
    by (intro exI[of _ "?m4\<lparr>active := False\<rparr>"]) simp
  with example_mech_LT aa show ?thesis by blast
qed

section \<open>Critical hits: termination\<close>

lemma fair_later:
  assumes "fair r" and "later r r'"
  shows "fair r'"
proof -
  from assms(2) obtain d where r': "r' = sdrop d r" by (auto simp: later_def)
  show ?thesis
    unfolding fair_def
  proof (intro allI impI)
    fix n len k :: nat assume "k < len"
    with assms(1) obtain j where "j \<ge> d + n" "r !! j mod len = k"
      unfolding fair_def by blast
    then have "j - d \<ge> n \<and> r' !! (j - d) mod len = k"
      by (simp add: r' sdrop_snth)
    then show "\<exists>j\<ge>n. r' !! j mod len = k" by blast
  qed
qed

lemma fair_counting: "fair (siterate Suc 0)"
  unfolding fair_def
proof (intro allI impI)
  fix n len k :: nat assume k: "k < len"
  have "siterate Suc 0 !! (n * len + k) = n * len + k"
    by (simp add: snth_siterate)
  moreover have "n * len + k \<ge> n"
    using k by (cases len) auto
  ultimately show "\<exists>j\<ge>n. siterate Suc 0 !! j mod len = k"
    using k by (intro exI[of _ "n * len + k"]) simp
qed

lemma randint_index: "randint 0 (int n - 1) r = (int (shd r mod n), stl r)"
  by (simp add: randint_def of_nat_mod)

lemma pick_slot_draw:
  assumes "slots ! (r !! j mod length slots) \<noteq> ''DESTROYED''"
  shows "\<exists>res. pick_slot slots r = Some res"
  using assms
proof (induction j arbitrary: r)
  case 0
  then show ?case
    by (subst pick_slot.simps) (simp add: randint_index)
next
  case (Suc j)
  show ?case
  proof (cases "slots ! (shd r mod length slots) = ''DESTROYED''")
    case True
    from Suc.prems have "slots ! (stl r !! j mod length slots) \<noteq> ''DESTROYED''" by simp
    from Suc.IH[OF this] True show ?thesis
      by (subst pick_slot.simps) (simp add: randint_index)
  next
    case False
    then show ?thesis
      by (subst pick_slot.simps) (simp add: randint_index)
  qed
qed

lemma filter_nonempty_index:
  assumes "filter (\<lambda>s. s \<noteq> d) xs \<noteq> []"
  shows "\<exists>k<length xs. xs ! k \<noteq> d"
proof -
  from assms obtain s where "s \<in> set xs" "s \<noteq> d"
    by (induction xs) (auto split: if_splits)
  then show ?thesis
    by (auto simp: in_set_conv_nth)
qed

lemma pick_slot_terminates:
  assumes "fair r" and "filter (\<lambda>s. s \<noteq> ''DESTROYED'') slots \<noteq> []"
  shows "\<exists>i r'. pick_slot slots r = Some (i, r')"
proof -
  from filter_nonempty_index[OF assms(2)]
  obtain k where k: "k < length slots" and live: "slots ! k \<noteq> ''DESTROYED''"
    by (elim exE conjE)
  from assms(1) k obtain j where j: "r !! j mod length slots = k"
    unfolding fair_def by (elim allE[of _ 0] allE[of _ "length slots"] allE[of _ k] impE exE conjE)
  from live have "slots ! (r !! j mod length slots) \<noteq> ''DESTROYED''"
    unfolding j .
  from pick_slot_draw[OF this] obtain res where "pick_slot slots r = Some res" by (elim exE)
  then show ?thesis by (cases res) simp
qed

lemma transfer_rank:
  assumes "transfer_to loc = Some t"
  shows "rank t < rank (Location.name loc)"
proof -
  from assms have "map_of TRANSFER_MAP (Location.name loc) = Some (Some t)"
    by (auto simp: transfer_to_def split: option.splits)
  then have "(Location.name loc, t) \<in> {(''LT'', ''CT''), (''RT'', ''CT''), (''LA'', ''LT''),
      (''RA'', ''RT''), (''LL'', ''LT''), (''RL'', ''RT'')}"
    by (simp add: TRANSFER_MAP_def split: if_splits)
  then show ?thesis
    by (auto simp: rank_def TRANSFER_MAP_def)
qed

lemma live_update:
  assumes "map_of ls k = Some l"
  shows "(\<Sum>(k, loc) \<leftarrow> AList.update k l' ls. length (available_slots loc)) + length (available_slots l)
       = (\<Sum>(k, loc) \<leftarrow> ls. length (available_slots loc)) + length (available_slots l')"
  using assms by (induction ls) (auto split: if_splits)

lemma live_crit_hit:
  assumes "map_of (locations m) k = Some loc"
    and "i < length (crittable_slots loc)" and "crittable_slots loc ! i \<noteq> ''DESTROYED''"
  shows "live_slots (crit_hit k loc i m) < live_slots m"
proof -
  obtain ws1 slots2 where cw: "crit_weapon k (crittable_slots loc ! i) (weapons m)
      ((crittable_slots loc)[i := ''DESTROYED'']) = (ws1, slots2)"
    by (cases "crit_weapon k (crittable_slots loc ! i) (weapons m) ((crittable_slots loc)[i := ''DESTROYED''])")
  have "length (filter (\<lambda>s. s \<noteq> ''DESTROYED'') slots2)
      < length (filter (\<lambda>s. s \<noteq> ''DESTROYED'') (crittable_slots loc))"
    using crit_weapon_slots[of k "crittable_slots loc ! i" "weapons m" "(crittable_slots loc)[i := ''DESTROYED'']"]
      live_after_hit[OF assms(2,3)] cw by simp
  then have "length (available_slots (loc\<lparr>crittable_slots := slots2\<rparr>)) < length (available_slots loc)"
    by (simp add: available_slots_def)
  moreover have "locations (crit_hit k loc i m) = AList.update k (loc\<lparr>crittable_slots := slots2\<rparr>) (locations m)"
    by (simp add: crit_hit_def Let_def cw set_location_def)
  ultimately show ?thesis
    using live_update[OF assms(1), of "loc\<lparr>crittable_slots := slots2\<rparr>"]
    by (simp add: live_slots_def)
qed

lemma names_ok_lookup: "names_ok m \<Longrightarrow> map_of (locations m) k = Some loc \<Longrightarrow> Location.name loc = k"
  unfolding names_ok_def by (auto dest: map_of_SomeD)

lemma and_then_terminates:
  assumes "x = Some res1" and "\<And>m r. res1 = Inr (m, r) \<Longrightarrow> \<exists>res. f m r = Some res"
  shows "\<exists>res. and_then x f = Some res"
proof (cases res1)
  case (Inl e)
  with assms(1) show ?thesis by (simp add: and_then_def)
next
  case (Inr p)
  obtain m r where "p = (m, r)" by (cases p)
  with Inr assms show ?thesis by (auto simp: and_then_def)
qed

lemma step_ok_facts:
  assumes "step_ok m r m' r'" and "names_ok m" and "fair r" and "live_slots m \<le> N"
  shows "names_ok m'" and "fair r'" and "live_slots m' \<le> N"
  using assms evolves_names_ok fair_later evolves_live[of m m']
  by (auto simp: step_ok_def)

lemma evolves_facts:
  assumes "evolves m m'" and "names_ok m" and "live_slots m \<le> N"
  shows "names_ok m'" and "live_slots m' \<le> N"
  using assms evolves_names_ok evolves_live[of m m'] by auto

lemma crit_loop_step_ok:
  "crit_loop k n m r = Some (Inr (m', r')) \<Longrightarrow> step_ok m r m' r'"
  unfolding crit_loop_def by (rule run_step_ok)

lemma apply_crits_step_ok:
  "apply_crits k n m r = Some (Inr (m', r')) \<Longrightarrow> step_ok m r m' r'"
  unfolding apply_crits_def by (rule run_step_ok)

lemma ammo_explosion_step_ok:
  "ammo_explosion k slot m r = Some (Inr (m', r')) \<Longrightarrow> step_ok m r m' r'"
  unfolding ammo_explosion_def by (rule run_step_ok)

lemma returns_Some [simp]: "returns (Some res)"
  by (simp add: returns_def)

lemma returns_and_then:
  assumes "returns x" and "\<And>m r. x = Some (Inr (m, r)) \<Longrightarrow> returns (f m r)"
  shows "returns (and_then x f)"
proof -
  from assms(1) obtain res1 where x: "x = Some res1" by (auto simp: returns_def)
  show ?thesis
  proof (cases res1)
    case (Inl e)
    with x show ?thesis by (simp add: and_then_def)
  next
    case (Inr p)
    obtain m r where "p = (m, r)" by (cases p)
    with Inr x assms(2)[of m r] show ?thesis by (simp add: and_then_def)
  qed
qed

lemma damage_pipeline_returns_aux:
  "\<forall>m r. live_slots m \<le> N \<longrightarrow> names_ok m \<longrightarrow> fair r \<longrightarrow>
     (\<forall>k n. returns (crit_loop k n m r)) \<and> (\<forall>k n. returns (apply_crits k n m r))
     \<and> (\<forall>k d is_rear. returns (apply_damage k d is_rear m r))
     \<and> (\<forall>k slot. returns (ammo_explosion k slot m r))"
proof (induction N rule: less_induct)
  case (less N)
  note outer = less.IH
  \<comment> \<open>the crit loop: each hit destroys a live slot, so what follows runs on fewer live slots\<close>
  have A: "returns (crit_loop k n m r)"
    if "live_slots m \<le> N" "names_ok m" "fair r" for k n m r
  proof (cases n)
    case 0
    then show ?thesis by (simp add: crit_loop_0)
  next
    case (Suc j)
    show ?thesis
    proof (cases "map_of (locations m) k")
      case None
      then show ?thesis by (simp add: Suc crit_loop_Suc)
    next
      case (Some loc)
      show ?thesis
      proof (cases "available_slots loc = []")
        case True
        with Some show ?thesis by (simp add: Suc crit_loop_Suc)
      next
        case False
        then have av: "filter (\<lambda>s. s \<noteq> ''DESTROYED'') (crittable_slots loc) \<noteq> []"
          by (simp add: available_slots_def)
        then have ne: "crittable_slots loc \<noteq> []" by auto
        from pick_slot_terminates[OF that(3) av]
        obtain i r1 where pk: "pick_slot (crittable_slots loc) r = Some (i, r1)" by (elim exE)
        from pick_slot_sound[OF pk ne]
        have i: "i < length (crittable_slots loc)" "crittable_slots loc ! i \<noteq> ''DESTROYED''"
          and l1: "later r r1" by simp_all
        define m1 where "m1 = crit_hit k loc i m"
        have lv: "live_slots m1 < live_slots m"
          unfolding m1_def by (rule live_crit_hit[OF Some i])
        define N' where "N' = live_slots m1"
        have N': "N' < N" using lv that(1) by (simp add: N'_def)
        have n1: "names_ok m1"
          unfolding m1_def using evolves_crit_hit[OF Some i] that(2) by (rule evolves_names_ok)
        have f1: "fair r1" using that(3) l1 by (rule fair_later)
        have first: "returns (if take 4 (crittable_slots loc ! i) = ''Ammo''
                          then ammo_explosion k (crittable_slots loc ! i) m1 r1
                          else Some (Inr (m1, r1)))"
          using outer[OF N'] n1 f1 by (simp add: N'_def)
        have rest: "returns (crit_loop k j m2 r2)"
          if x: "(if take 4 (crittable_slots loc ! i) = ''Ammo''
                          then ammo_explosion k (crittable_slots loc ! i) m1 r1
                          else Some (Inr (m1, r1))) = Some (Inr (m2, r2))" for m2 r2
        proof -
          have "step_ok m1 r1 m2 r2"
            using x by (auto split: if_splits intro: ammo_explosion_step_ok step_ok_refl)
          from step_ok_facts[OF this n1 f1, of N'] outer[OF N'] show ?thesis
            by (simp add: N'_def)
        qed
        have "returns (and_then (if take 4 (crittable_slots loc ! i) = ''Ammo''
                          then ammo_explosion k (crittable_slots loc ! i) m1 r1
                          else Some (Inr (m1, r1))) (\<lambda>m2 r2. crit_loop k j m2 r2))"
          using first rest by (rule returns_and_then)
        then show ?thesis
          unfolding m1_def by (simp add: Suc crit_loop_Suc Some False pk Let_def split: if_splits)
      qed
    qed
  qed
  have B: "returns (apply_crits k n m r)"
    if "live_slots m \<le> N" "names_ok m" "fair r" for k n m r
    using A[OF that] by (subst apply_crits_unfold) (simp split: option.splits)
  \<comment> \<open>damage: a transfer goes down the transfer chain\<close>
  have C: "returns (apply_damage k d is_rear m r)"
    if "live_slots m \<le> N" "names_ok m" "fair r" for k d is_rear m r
    using that
  proof (induction "rank k" arbitrary: k d is_rear m r rule: less_induct)
    case less
    note inner = less.hyps
    note lv = less.prems(1) and nm = less.prems(2) and fr = less.prems(3)
    show ?case
    proof (cases "map_of (locations m) k")
      case None
      then show ?thesis by (subst apply_damage_unfold) simp
    next
      case (Some loc)
      have name: "Location.name loc = k" using nm Some by (rule names_ok_lookup)
      show ?thesis
      proof (cases "Location.destroyed loc")
        case True
        show ?thesis
        proof (cases "transfer_to loc")
          case None
          with Some True show ?thesis by (subst apply_damage_unfold) simp
        next
          case t: (Some t)
          from transfer_rank[OF t] name have "rank t < rank k" by simp
          from inner[OF this lv nm fr] Some True t show ?thesis
            by (subst apply_damage_unfold) simp
        qed
      next
        case nd: False
        obtain loc1 d1 where aa: "absorb_armor k is_rear loc d = (loc1, d1)"
          by (cases "absorb_armor k is_rear loc d")
        note af = absorb_armor_fields[OF aa]
        show ?thesis
        proof (cases "d1 \<le> 0")
          case True
          with Some nd aa show ?thesis by (subst apply_damage_unfold) simp
        next
          case d1: False
          define sa where "sa = min (current_structure loc1) d1"
          define loc2 where "loc2 = loc1\<lparr>current_structure := current_structure loc1 - sa\<rparr>"
          define m2 where "m2 = set_location k loc2 m"
          have e2: "evolves m m2"
            unfolding m2_def
            by (rule evolves_set_location[OF Some]) (simp_all add: af loc2_def available_slots_def)
          note m2f = evolves_facts[OF e2 nm lv]
          define X where "X = (if sa > 0 \<and> current_structure loc2 > 0 then
                          (case roll_critical_hits r of
                            Inl e \<Rightarrow> Some (Inl e)
                          | Inr (num_crits, r') \<Rightarrow>
                              if num_crits > 0 then apply_crits k num_crits m2 r'
                              else Some (Inr (m2, r')))
                        else Some (Inr (m2, r)))"
          define F where "F = (\<lambda>m3 r3.
                          case map_of (locations m3) k of
                            None \<Rightarrow> Some (Inl KeyError)
                          | Some loc3 \<Rightarrow>
                              if current_structure loc3 \<le> 0 then
                                (let m4 = mark_destroyed k loc3 m3
                                 in if is_dead m4 then Some (Inr (m4\<lparr>active := False\<rparr>, r3))
                                    else if d1 - sa > 0 then
                                      (case transfer_to loc3 of
                                        Some transfer \<Rightarrow> apply_damage transfer (d1 - sa) False m4 r3
                                      | None \<Rightarrow> Some (Inr (m4, r3)))
                                    else Some (Inr (m4, r3)))
                              else Some (Inr (m3, r3)))"
          have eq: "apply_damage k d is_rear m r = and_then X F"
            unfolding X_def F_def m2_def loc2_def sa_def
            by (subst apply_damage_unfold) (simp add: Some nd aa d1 Let_def)
          have rX: "returns X"
          proof (cases "roll_critical_hits r")
            case (Inl e)
            then show ?thesis by (simp add: X_def)
          next
            case (Inr p)
            obtain num_crits r' where p: "p = (num_crits, r')" by (cases p)
            have "fair r'"
              using fr later_roll_critical_hits[OF Inr[unfolded p]] by (rule fair_later)
            from B[OF m2f(2) m2f(1) this] Inr p show ?thesis
              by (simp add: X_def)
          qed
          have sX: "step_ok m r m3 r3" if "X = Some (Inr (m3, r3))" for m3 r3
          proof -
            have "step_ok m2 r m3 r3"
              using that unfolding X_def
              by (auto simp: step_ok_def evolves_refl later_refl
                  split: if_splits sum.splits prod.splits
                  dest!: apply_crits_step_ok later_roll_critical_hits intro: later_trans)
            moreover have "step_ok m r m2 r"
              using e2 by (simp add: step_ok_def later_refl)
            ultimately show ?thesis by (blast intro: step_ok_trans)
          qed
          have rF: "returns (F m3 r3)" if x: "X = Some (Inr (m3, r3))" for m3 r3
          proof -
            note f3 = step_ok_facts[OF sX[OF x] nm fr lv]
            show ?thesis
            proof (cases "map_of (locations m3) k")
              case None
              then show ?thesis by (simp add: F_def)
            next
              case l3: (Some loc3)
              have name3: "Location.name loc3 = k" using f3(1) l3 by (rule names_ok_lookup)
              define m4 where "m4 = mark_destroyed k loc3 m3"
              have "evolves m3 m4"
                unfolding m4_def by (rule evolves_mark_destroyed[OF l3])
              note f4 = evolves_facts[OF this f3(1) f3(3)]
              have "returns (apply_damage t (d1 - sa) False m4 r3)" if t: "transfer_to loc3 = Some t" for t
              proof -
                from transfer_rank[OF t] name3 have "rank t < rank k" by simp
                from inner[OF this f4(2) f4(1) f3(2)] show ?thesis .
              qed
              then show ?thesis
                by (simp add: F_def l3 Let_def m4_def split: option.splits)
            qed
          qed
          show ?thesis
            unfolding eq using rX rF by (rule returns_and_then)
        qed
      qed
    qed
  qed
  have D: "returns (ammo_explosion k slot m r)"
    if "live_slots m \<le> N" "names_ok m" "fair r" for k slot m r
  proof -
    obtain found ws1 where fa: "find_ammo k slot (weapons m) = (found, ws1)"
      by (cases "find_ammo k slot (weapons m)")
    have "live_slots (m\<lparr>weapons := ws1\<rparr>) \<le> N" "names_ok (m\<lparr>weapons := ws1\<rparr>)"
      using that by (simp_all add: live_slots_def names_ok_def)
    from C[OF this that(3)] show ?thesis
      by (subst ammo_explosion_unfold) (simp add: fa Let_def split: option.splits)
  qed
  from A B C D show ?case by blast
qed

lemma crit_loop_slots_hit:
  assumes "crit_loop k n m r = Some (Inr (m', r'))" and "map_of (locations m) k = Some loc"
  shows "\<exists>loc'. map_of (locations m') k = Some loc'
           \<and> (available_slots loc' = [] \<or> length (available_slots loc') + n \<le> length (available_slots loc))"
  using assms
proof (induction n arbitrary: m r loc)
  case 0
  then show ?case by (simp add: crit_loop_0)
next
  case (Suc j)
  note lk = Suc.prems(2)
  show ?case
  proof (cases "available_slots loc = []")
    case True
    with Suc.prems show ?thesis by (simp add: crit_loop_Suc)
  next
    case False
    then have ne: "crittable_slots loc \<noteq> []"
      by (auto simp: available_slots_def)
    from Suc.prems(1) lk False
    obtain i r1 where pk: "pick_slot (crittable_slots loc) r = Some (i, r1)"
      and at: "and_then
                 (if take 4 (crittable_slots loc ! i) = ''Ammo''
                  then ammo_explosion k (crittable_slots loc ! i) (crit_hit k loc i m) r1
                  else Some (Inr (crit_hit k loc i m, r1)))
                 (\<lambda>m2 r2. crit_loop k j m2 r2) = Some (Inr (m', r'))"
      by (auto simp: crit_loop_Suc Let_def split: Option.bind_splits)
    from pick_slot_sound[OF pk ne]
    have i: "i < length (crittable_slots loc)" "crittable_slots loc ! i \<noteq> ''DESTROYED''"
      by simp_all
    from crit_hit_location[OF lk, of i] obtain slots where
      l1: "map_of (locations (crit_hit k loc i m)) k = Some (loc\<lparr>crittable_slots := slots\<rparr>)"
      and c1: "length (filter (\<lambda>s. s \<noteq> ''DESTROYED'') slots)
               \<le> length (filter (\<lambda>s. s \<noteq> ''DESTROYED'') ((crittable_slots loc)[i := ''DESTROYED'']))"
      by (elim exE conjE)
    have c1': "Suc (length (available_slots (loc\<lparr>crittable_slots := slots\<rparr>))) \<le> length (available_slots loc)"
      using c1 live_after_hit[OF i] by (simp add: available_slots_def)
    from at show ?thesis
    proof (cases rule: and_then_Some)
      case (1 e)
      then show ?thesis by simp
    next
      case (2 m2 r2)
      have "evolves (crit_hit k loc i m) m2"
        using 2(1) by (auto split: if_splits dest!: ammo_explosion_step_ok simp: step_ok_def evolves_refl)
      then have "locations_evolve (locations (crit_hit k loc i m)) (locations m2)"
        by (simp add: evolves_def)
      from locations_evolve_lookup[OF this l1] obtain loc2 where
        l2: "map_of (locations m2) k = Some loc2"
        and c2: "length (available_slots loc2) \<le> length (available_slots (loc\<lparr>crittable_slots := slots\<rparr>))"
        by (elim exE conjE)
      from Suc.IH[OF 2(2) l2] obtain loc' where
        l': "map_of (locations m') k = Some loc'"
        and c': "available_slots loc' = [] \<or> length (available_slots loc') + j \<le> length (available_slots loc2)"
        by (elim exE conjE)
      from c' c2 c1' have "available_slots loc' = [] \<or> length (available_slots loc') + Suc j \<le> length (available_slots loc)"
        by linarith
      with l' show ?thesis by (intro exI[of _ loc']) simp
    qed
  qed
qed

text \<open>
  C9. Applying N critical hits to a location returns, so the retry loop does not run
  forever; when it returns normally, either no non-destroyed slot is left in the location
  or at least N of its slots have been destroyed. The unit is one whose locations are
  stored under their own names, as every loaded unit is, and the random source is fair:
  this is what the model keeps of \<open>random.randint\<close>, whose draws over a slot list do not
  avoid an index forever.
\<close>

theorem apply_crits_terminates:
  assumes "names_ok m" and "fair r"
  shows "\<exists>res. apply_crits location_id num_crits m r = Some res
           \<and> (\<forall>m' r' loc. res = Inr (m', r') \<and> map_of (locations m) location_id = Some loc \<longrightarrow>
                 (\<exists>loc'. map_of (locations m') location_id = Some loc'
                     \<and> (available_slots loc' = []
                          \<or> length (available_slots loc') + nat num_crits \<le> length (available_slots loc))))"
proof -
  from damage_pipeline_returns_aux[of "live_slots m"] assms
  have "returns (apply_crits location_id num_crits m r)" by simp
  then obtain res where res: "apply_crits location_id num_crits m r = Some res"
    by (auto simp: returns_def)
  have "\<exists>loc'. map_of (locations m') location_id = Some loc'
          \<and> (available_slots loc' = []
               \<or> length (available_slots loc') + nat num_crits \<le> length (available_slots loc))"
    if r: "res = Inr (m', r')" and lk: "map_of (locations m) location_id = Some loc" for m' r' loc
  proof (cases "available_slots loc = []")
    case True
    with res r lk have "m' = m" by (simp add: apply_crits_unfold)
    with lk True show ?thesis by simp
  next
    case False
    with res r lk have "crit_loop location_id (nat num_crits) m r = Some (Inr (m', r'))"
      by (simp add: apply_crits_unfold)
    from crit_loop_slots_hit[OF this lk] show ?thesis .
  qed
  with res show ?thesis by blast
qed

lemma names_ok_example: "names_ok (example_mech engine)"
  by (simp add: names_ok_def example_mech_def new_location_def)

theorem apply_crits_terminates_witness:
  "names_ok (example_mech ''standard'') \<and> fair (siterate Suc 0)
   \<and> (\<exists>res. apply_crits ''RT'' 2 (example_mech ''standard'') (siterate Suc 0) = Some res)"
  using apply_crits_terminates[OF names_ok_example fair_counting, of "''RT''" 2 "''standard''"]
    names_ok_example fair_counting
  by blast

lemma pick_slot_stuck:
  assumes "pick_slot slots r = Some res"
  shows "\<not> (r = sconst 0 \<and> slots ! 0 = ''DESTROYED'' \<and> slots \<noteq> [])"
proof (rule pick_slot.raw_induct[where P = "\<lambda>slots r res. \<not> (r = sconst 0 \<and> slots ! 0 = ''DESTROYED'' \<and> slots \<noteq> [])",
      OF _ assms])
  fix pick slots r res
  assume IH: "\<And>slots r res. pick slots r = Some res \<Longrightarrow> \<not> (r = sconst 0 \<and> slots ! 0 = ''DESTROYED'' \<and> slots \<noteq> [])"
    and body: "(let (slot_idx, r') = randint 0 (int (length slots) - 1) r in
          if slots ! nat slot_idx = ''DESTROYED'' then pick slots r'
          else Some (nat slot_idx, r')) = Some res"
  show "\<not> (r = sconst 0 \<and> slots ! 0 = ''DESTROYED'' \<and> slots \<noteq> [])"
  proof
    assume a: "r = sconst 0 \<and> slots ! 0 = ''DESTROYED'' \<and> slots \<noteq> []"
    then have "pick slots (sconst 0) = Some res"
      using body by (simp add: randint_index)
    from IH[OF this] a show False by simp
  qed
qed

text \<open>
  Fairness is what the retry loop rests on: the loop has no bound of its own, and on a
  stream of the model that draws index 0 for ever, with the first of two slots destroyed,
  one critical hit never returns. Python's generator gives no such stream.
\<close>

lemma retry_loop_rests_on_fairness:
  "apply_crits ''CT'' 1 crit_example (sconst 0) = None"
proof -
  have "pick_slot [''DESTROYED'', ''Engine''] (sconst 0) = None"
  proof (cases "pick_slot [''DESTROYED'', ''Engine''] (sconst 0)")
    case None
    then show ?thesis .
  next
    case (Some res)
    from pick_slot_stuck[OF this] show ?thesis by simp
  qed
  then show ?thesis
    by (simp add: apply_crits_unfold crit_loop_Suc crit_example_def set_location_def
        example_mech_def new_location_def available_slots_def)
qed

section \<open>Heat phase: shutdown and ammunition checks\<close>

lemma roll_2d6_range: "2 \<le> fst (roll_2d6 r) \<and> fst (roll_2d6 r) \<le> 12"
proof -
  have "0 \<le> int (shd r) mod 6 \<and> int (shd r) mod 6 < 6"
    and "0 \<le> int (shd (stl r)) mod 6 \<and> int (shd (stl r)) mod 6 < 6"
    by simp_all
  then show ?thesis
    by (simp add: roll_2d6_def randint_def)
qed

lemma ammo_risk_check_idle:
  assumes "current_heat m < 18 \<or> \<not> list_ex has_ammo (weapons m)"
  shows "ammo_risk_check m r = Some (Inr (m, r))"
  using assms unfolding ammo_risk_check_def by (cases "current_heat m \<ge> 18") simp_all

lemma shutdown_check_bands:
  "30 \<le> h \<Longrightarrow> shutdown_check h r = (True, r)"
  "25 \<le> h \<Longrightarrow> h < 30 \<Longrightarrow> shutdown_check h r = (4 \<le> fst (roll_2d6 r), snd (roll_2d6 r))"
  "19 \<le> h \<Longrightarrow> h < 25 \<Longrightarrow> shutdown_check h r = (6 \<le> fst (roll_2d6 r), snd (roll_2d6 r))"
  "14 \<le> h \<Longrightarrow> h < 19 \<Longrightarrow> shutdown_check h r = (8 \<le> fst (roll_2d6 r), snd (roll_2d6 r))"
  "h < 14 \<Longrightarrow> shutdown_check h r = (False, r)"
  by (simp_all add: shutdown_check_def split: prod.splits)

lemma apply_heat_phase_unfold:
  "apply_heat_phase m ws r =
     (if fst (shutdown_check (updated_heat m ws) r)
      then Some (Inr (m\<lparr>current_heat := updated_heat m ws, active := False\<rparr>,
                      snd (shutdown_check (updated_heat m ws) r)))
      else ammo_risk_check (m\<lparr>current_heat := updated_heat m ws\<rparr>)
             (snd (shutdown_check (updated_heat m ws) r)))"
  by (simp add: apply_heat_phase_def Let_def split: prod.splits)

text \<open>
  C2 (amended). With \<open>h\<close> the updated heat, stored in the unit before any check: from
  30 on the phase ends with the unit inactive and no roll, the random stream untouched.
  In [25,30) one two-die roll is made; the phase ends with the unit inactive exactly
  when the roll is 4 or more, and on a roll of 2 or 3 it goes on to the ammunition check
  with the stream after the roll. In [19,25) the same with 6, in [14,19) with 8. Below
  14 no roll is made and the phase returns the unit with nothing but its heat changed.
  The ammunition check changes nothing when the heat is below 18 or no weapon has ammo,
  so at heat 29 a unit without ammo that rolls 2 or 3 comes out of the phase as it went
  in, its activity flag untouched.
\<close>

theorem heat_shutdown_thresholds:
  "(let h = updated_heat m ws;
        m1 = m\<lparr>current_heat := h\<rparr>;
        roll = fst (roll_2d6 r);
        r1 = snd (roll_2d6 r)
    in (30 \<le> h \<longrightarrow> apply_heat_phase m ws r = Some (Inr (m1\<lparr>active := False\<rparr>, r)))
     \<and> (25 \<le> h \<and> h < 30 \<longrightarrow>
          apply_heat_phase m ws r =
            (if 4 \<le> roll then Some (Inr (m1\<lparr>active := False\<rparr>, r1)) else ammo_risk_check m1 r1))
     \<and> (19 \<le> h \<and> h < 25 \<longrightarrow>
          apply_heat_phase m ws r =
            (if 6 \<le> roll then Some (Inr (m1\<lparr>active := False\<rparr>, r1)) else ammo_risk_check m1 r1))
     \<and> (14 \<le> h \<and> h < 19 \<longrightarrow>
          apply_heat_phase m ws r =
            (if 8 \<le> roll then Some (Inr (m1\<lparr>active := False\<rparr>, r1)) else ammo_risk_check m1 r1))
     \<and> (h < 14 \<longrightarrow> apply_heat_phase m ws r = Some (Inr (m1, r)))
     \<and> (h < 18 \<or> \<not> list_ex has_ammo (weapons m) \<longrightarrow>
          (\<forall>r'. ammo_risk_check m1 r' = Some (Inr (m1, r'))))
     \<and> (h = 29 \<and> roll < 4 \<and> \<not> list_ex has_ammo (weapons m) \<longrightarrow>
          apply_heat_phase m ws r = Some (Inr (m1, r1))))"
  unfolding Let_def
proof (intro conjI impI allI)
  assume "30 \<le> updated_heat m ws"
  then show "apply_heat_phase m ws r
      = Some (Inr (m\<lparr>current_heat := updated_heat m ws, active := False\<rparr>, r))"
    by (simp add: apply_heat_phase_unfold shutdown_check_bands)
next
  assume "25 \<le> updated_heat m ws \<and> updated_heat m ws < 30"
  then show "apply_heat_phase m ws r =
      (if 4 \<le> fst (roll_2d6 r)
       then Some (Inr (m\<lparr>current_heat := updated_heat m ws, active := False\<rparr>, snd (roll_2d6 r)))
       else ammo_risk_check (m\<lparr>current_heat := updated_heat m ws\<rparr>) (snd (roll_2d6 r)))"
    by (simp add: apply_heat_phase_unfold shutdown_check_bands)
next
  assume "19 \<le> updated_heat m ws \<and> updated_heat m ws < 25"
  then show "apply_heat_phase m ws r =
      (if 6 \<le> fst (roll_2d6 r)
       then Some (Inr (m\<lparr>current_heat := updated_heat m ws, active := False\<rparr>, snd (roll_2d6 r)))
       else ammo_risk_check (m\<lparr>current_heat := updated_heat m ws\<rparr>) (snd (roll_2d6 r)))"
    by (simp add: apply_heat_phase_unfold shutdown_check_bands)
next
  assume "14 \<le> updated_heat m ws \<and> updated_heat m ws < 19"
  then show "apply_heat_phase m ws r =
      (if 8 \<le> fst (roll_2d6 r)
       then Some (Inr (m\<lparr>current_heat := updated_heat m ws, active := False\<rparr>, snd (roll_2d6 r)))
       else ammo_risk_check (m\<lparr>current_heat := updated_heat m ws\<rparr>) (snd (roll_2d6 r)))"
    by (simp add: apply_heat_phase_unfold shutdown_check_bands)
next
  assume "updated_heat m ws < 14"
  then show "apply_heat_phase m ws r = Some (Inr (m\<lparr>current_heat := updated_heat m ws\<rparr>, r))"
    by (simp add: apply_heat_phase_unfold shutdown_check_bands ammo_risk_check_idle)
next
  fix r'
  assume "updated_heat m ws < 18 \<or> \<not> list_ex has_ammo (weapons m)"
  then show "ammo_risk_check (m\<lparr>current_heat := updated_heat m ws\<rparr>) r'
      = Some (Inr (m\<lparr>current_heat := updated_heat m ws\<rparr>, r'))"
    by (intro ammo_risk_check_idle) simp
next
  assume "updated_heat m ws = 29 \<and> fst (roll_2d6 r) < 4 \<and> \<not> list_ex has_ammo (weapons m)"
  then show "apply_heat_phase m ws r
      = Some (Inr (m\<lparr>current_heat := updated_heat m ws\<rparr>, snd (roll_2d6 r)))"
    by (simp add: apply_heat_phase_unfold shutdown_check_bands ammo_risk_check_idle)
qed

lemma hot_example_heat:
  "updated_heat (hot_example h) [] = max 0 (h - 10)"
  by (simp add: updated_heat_def hot_example_def example_mech_def calculate_heat_generated_def
      movement_heat_def calculate_heat_dissipation_def)

lemma hot_example_ammo: "list_ex has_ammo (weapons (hot_example h))"
  by (simp add: hot_example_def example_mech_def has_ammo_def mount_def AC20_def)

lemma constant_rolls:
  "roll_2d6 (sconst 0) = (2, sconst 0)" "roll_2d6 (sconst 5) = (12, sconst 5)"
  by (simp_all add: roll_2d6_def randint_def)

lemma ammo_risk_check_low_roll:
  "ammo_risk_check m (sconst 0) = Some (Inr (m, sconst 0))"
  by (simp add: ammo_risk_check_def constant_rolls)

lemma closer_example_heat:
  "updated_heat (closer_example\<lparr>current_heat := 39\<rparr>) [] = 29"
  "weapons (closer_example\<lparr>current_heat := 39\<rparr>) = []"
  by (simp_all add: updated_heat_def closer_example_def example_mech_def calculate_heat_generated_def
      movement_heat_def calculate_heat_dissipation_def)

theorem heat_shutdown_thresholds_witness:
  "apply_heat_phase (hot_example 40) [] (sconst 5)
       = Some (Inr ((hot_example 40)\<lparr>current_heat := 30, active := False\<rparr>, sconst 5))
   \<and> apply_heat_phase (hot_example 39) [] (sconst 5)
       = Some (Inr ((hot_example 39)\<lparr>current_heat := 29, active := False\<rparr>, sconst 5))
   \<and> apply_heat_phase (hot_example 39) [] (sconst 0)
       = Some (Inr ((hot_example 39)\<lparr>current_heat := 29\<rparr>, sconst 0))
   \<and> apply_heat_phase (hot_example 30) [] (sconst 5)
       = Some (Inr ((hot_example 30)\<lparr>current_heat := 20, active := False\<rparr>, sconst 5))
   \<and> apply_heat_phase (hot_example 30) [] (sconst 0)
       = Some (Inr ((hot_example 30)\<lparr>current_heat := 20\<rparr>, sconst 0))
   \<and> apply_heat_phase (hot_example 25) [] (sconst 5)
       = Some (Inr ((hot_example 25)\<lparr>current_heat := 15, active := False\<rparr>, sconst 5))
   \<and> apply_heat_phase (hot_example 25) [] (sconst 0)
       = Some (Inr ((hot_example 25)\<lparr>current_heat := 15\<rparr>, sconst 0))
   \<and> apply_heat_phase (hot_example 23) [] (sconst 5)
       = Some (Inr ((hot_example 23)\<lparr>current_heat := 13\<rparr>, sconst 5))
   \<and> \<not> list_ex has_ammo (weapons (closer_example\<lparr>current_heat := 39\<rparr>))
   \<and> apply_heat_phase (closer_example\<lparr>current_heat := 39\<rparr>) [] (sconst 0)
       = Some (Inr (closer_example\<lparr>current_heat := 29\<rparr>, sconst 0))"
  using heat_shutdown_thresholds[of "closer_example\<lparr>current_heat := 39\<rparr>" "[]" "sconst 0"]
    heat_shutdown_thresholds[of "hot_example 40" "[]" "sconst 5"]
    heat_shutdown_thresholds[of "hot_example 39" "[]" "sconst 5"]
    heat_shutdown_thresholds[of "hot_example 39" "[]" "sconst 0"]
    heat_shutdown_thresholds[of "hot_example 30" "[]" "sconst 5"]
    heat_shutdown_thresholds[of "hot_example 30" "[]" "sconst 0"]
    heat_shutdown_thresholds[of "hot_example 25" "[]" "sconst 5"]
    heat_shutdown_thresholds[of "hot_example 25" "[]" "sconst 0"]
    heat_shutdown_thresholds[of "hot_example 23" "[]" "sconst 5"]
  by (simp add: hot_example_heat closer_example_heat constant_rolls ammo_risk_check_low_roll Let_def)

text \<open>
  C2, as stated, fails: at an updated heat of 25 a roll of 12, which the claim says
  avoids the shutdown, shuts the unit down.
\<close>

theorem shutdown_on_high_roll_counterexample:
  "updated_heat (hot_example 35) [] = 25 \<and> fst (roll_2d6 (sconst 5)) = 12
   \<and> apply_heat_phase (hot_example 35) [] (sconst 5)
       = Some (Inr ((hot_example 35)\<lparr>current_heat := 25, active := False\<rparr>, sconst 5))"
proof -
  have u: "updated_heat (hot_example 35) [] = 25"
    by (simp add: updated_heat_def hot_example_def example_mech_def calculate_heat_generated_def
        movement_heat_def calculate_heat_dissipation_def)
  have r5: "roll_2d6 (sconst 5) = (12, sconst 5)"
    by (simp add: roll_2d6_def randint_def)
  show ?thesis
    by (simp add: u r5 apply_heat_phase_def shutdown_check_def)
qed

lemma choice_member: "xs \<noteq> [] \<Longrightarrow> fst (choice xs r) \<in> set xs"
  by (simp add: choice_def)

text \<open>
  C3 (amended). In a heat phase with an updated heat \<open>h\<close> of at least 18 and a weapon that
  still has ammo: from 30 on the phase ends in the automatic shutdown and the random
  stream is untouched; below 30 the shutdown roll is made first (it needs 4 from heat 25,
  6 from heat 19, 8 at heat 18) and when it reaches its number the phase ends in the
  shutdown with the stream as that one roll left it, so no ammo roll is made. Otherwise
  a second two-die roll is made; if it is below 4 nothing but the heat changes, and if
  it is 4 or more one of the ammo-carrying weapons is picked with one random draw and
  \<open>_ammo_explosion\<close> runs on that weapon's location and ammo slot.
\<close>

theorem heat_ammo_explosion_rule:
  assumes "18 \<le> updated_heat m ws" and "list_ex has_ammo (weapons m)"
  shows "(let h = updated_heat m ws;
              m1 = m\<lparr>current_heat := h\<rparr>;
              (roll0, r0) = roll_2d6 r;
              need = (if 25 \<le> h then 4 else if 19 \<le> h then 6 else 8);
              (roll, r2) = roll_2d6 r0;
              (victim, r3) = choice (filter has_ammo (weapons m)) r2
          in (30 \<le> h \<longrightarrow> apply_heat_phase m ws r = Some (Inr (m1\<lparr>active := False\<rparr>, r)))
           \<and> (h < 30 \<and> need \<le> roll0 \<longrightarrow>
                apply_heat_phase m ws r = Some (Inr (m1\<lparr>active := False\<rparr>, r0)))
           \<and> (h < 30 \<and> roll0 < need \<and> roll < 4 \<longrightarrow>
                apply_heat_phase m ws r = Some (Inr (m1, r2)))
           \<and> (h < 30 \<and> roll0 < need \<and> 4 \<le> roll \<longrightarrow>
                victim \<in> set (weapons m) \<and> has_ammo victim
                \<and> apply_heat_phase m ws r =
                    ammo_explosion (location victim) (''Ammo '' @ Weapon.name (weapon victim)) m1 r3))"
proof -
  let ?h = "updated_heat m ws"
  let ?m1 = "m\<lparr>current_heat := ?h\<rparr>"
  let ?need = "if 25 \<le> ?h then 4 else if 19 \<le> ?h then 6 else (8::int)"
  have ne: "filter has_ammo (weapons m) \<noteq> []"
    using assms(2) by (auto simp: list_ex_iff filter_empty_conv)
  obtain roll0 r0 where rl0: "roll_2d6 r = (roll0, r0)" by (cases "roll_2d6 r")
  obtain roll r2 where rl: "roll_2d6 r0 = (roll, r2)" by (cases "roll_2d6 r0")
  obtain victim r3 where ch: "choice (filter has_ammo (weapons m)) r2 = (victim, r3)"
    by (cases "choice (filter has_ammo (weapons m)) r2")
  from choice_member[OF ne, of r2] ch have v: "victim \<in> set (weapons m)" "has_ammo victim"
    by simp_all
  have sc: "?h < 30 \<Longrightarrow> shutdown_check ?h r = (?need \<le> roll0, r0)"
    using assms(1) by (simp add: shutdown_check_def rl0)
  have risk: "ammo_risk_check ?m1 r0 =
      (if 4 \<le> roll
       then ammo_explosion (location victim) (''Ammo '' @ Weapon.name (weapon victim)) ?m1 r3
       else Some (Inr (?m1, r2)))"
    using assms ne by (simp add: ammo_risk_check_def rl ch Let_def del: append.simps)
  have a: "30 \<le> ?h \<Longrightarrow> apply_heat_phase m ws r = Some (Inr (?m1\<lparr>active := False\<rparr>, r))"
    by (simp add: apply_heat_phase_unfold shutdown_check_bands)
  have b: "?h < 30 \<Longrightarrow> ?need \<le> roll0 \<Longrightarrow>
      apply_heat_phase m ws r = Some (Inr (?m1\<lparr>active := False\<rparr>, r0))"
    by (simp add: apply_heat_phase_unfold sc)
  have c: "?h < 30 \<Longrightarrow> roll0 < ?need \<Longrightarrow> apply_heat_phase m ws r = ammo_risk_check ?m1 r0"
    by (simp add: apply_heat_phase_unfold sc)
  show ?thesis
    unfolding Let_def rl0 rl ch prod.case
    using a b c v by (simp add: risk del: append.simps)
qed

lemma hot_example_28:
  "updated_heat (hot_example 28) [] = 18"
  "list_ex has_ammo (weapons (hot_example 28))"
  "filter has_ammo (weapons (hot_example 28)) = [mount AC20 ''RT'', mount MACHINE_GUN ''LT'']"
  by (simp_all add: updated_heat_def hot_example_def example_mech_def calculate_heat_generated_def
      movement_heat_def calculate_heat_dissipation_def has_ammo_def mount_def AC20_def
      MACHINE_GUN_def MEDIUM_LASER_def)

lemma rolls_0_0_5_5_7:
  "shutdown_check 18 (0 ## 0 ## 5 ## 5 ## 7 ## sconst 0) = (False, 5 ## 5 ## 7 ## sconst 0)"
  "roll_2d6 (5 ## 5 ## 7 ## sconst 0) = (12, 7 ## sconst 0)"
  "choice [mount AC20 ''RT'', mount MACHINE_GUN ''LT''] (7 ## sconst 0)
     = (mount MACHINE_GUN ''LT'', sconst 0)"
  by (simp_all add: shutdown_check_def roll_2d6_def randint_def choice_def numeral_2_eq_2[symmetric])

lemma rolls_5_5_0_0:
  "roll_2d6 (5 ## 5 ## 0 ## 0 ## sconst 0) = (12, 0 ## 0 ## sconst 0)"
  "roll_2d6 (0 ## 0 ## sconst 0) = (2, sconst 0)"
  "roll_2d6 (0 ## 0 ## 5 ## 5 ## 7 ## sconst 0) = (2, 5 ## 5 ## 7 ## sconst 0)"
  by (simp_all add: roll_2d6_def randint_def)

lemma mount_machine_gun:
  "location (mount MACHINE_GUN ''LT'') = ''LT''"
  "''Ammo '' @ Weapon.name (weapon (mount MACHINE_GUN ''LT'')) = ''Ammo Machine Gun''"
  by (simp_all add: mount_def MACHINE_GUN_def)

theorem heat_ammo_explosion_rule_witness:
  "18 \<le> updated_heat (hot_example 28) [] \<and> 18 \<le> updated_heat (hot_example 40) []
   \<and> list_ex has_ammo (weapons (hot_example 28)) \<and> list_ex has_ammo (weapons (hot_example 40))
   \<and> apply_heat_phase (hot_example 40) [] (0 ## 0 ## 5 ## 5 ## 7 ## sconst 0)
       = Some (Inr ((hot_example 40)\<lparr>current_heat := 30, active := False\<rparr>,
                    0 ## 0 ## 5 ## 5 ## 7 ## sconst 0))
   \<and> apply_heat_phase (hot_example 28) [] (5 ## 5 ## 0 ## 0 ## sconst 0)
       = Some (Inr ((hot_example 28)\<lparr>current_heat := 18, active := False\<rparr>, 0 ## 0 ## sconst 0))
   \<and> apply_heat_phase (hot_example 28) [] (sconst 0)
       = Some (Inr ((hot_example 28)\<lparr>current_heat := 18\<rparr>, sconst 0))
   \<and> apply_heat_phase (hot_example 28) [] (0 ## 0 ## 5 ## 5 ## 7 ## sconst 0)
       = ammo_explosion ''LT'' ''Ammo Machine Gun'' ((hot_example 28)\<lparr>current_heat := 18\<rparr>) (sconst 0)"
proof -
  have h28: "18 \<le> updated_heat (hot_example 28) []" and h40: "18 \<le> updated_heat (hot_example 40) []"
    by (simp_all add: hot_example_heat)
  note A = heat_ammo_explosion_rule[OF h40 hot_example_ammo, of "0 ## 0 ## 5 ## 5 ## 7 ## sconst 0"]
  note B = heat_ammo_explosion_rule[OF h28 hot_example_ammo, of "5 ## 5 ## 0 ## 0 ## sconst 0"]
  note C = heat_ammo_explosion_rule[OF h28 hot_example_ammo, of "sconst 0"]
  note D = heat_ammo_explosion_rule[OF h28 hot_example_ammo, of "0 ## 0 ## 5 ## 5 ## 7 ## sconst 0"]
  have a: "apply_heat_phase (hot_example 40) [] (0 ## 0 ## 5 ## 5 ## 7 ## sconst 0)
       = Some (Inr ((hot_example 40)\<lparr>current_heat := 30, active := False\<rparr>,
                    0 ## 0 ## 5 ## 5 ## 7 ## sconst 0))"
    using A by (simp add: hot_example_heat Let_def split: prod.splits)
  have b: "apply_heat_phase (hot_example 28) [] (5 ## 5 ## 0 ## 0 ## sconst 0)
       = Some (Inr ((hot_example 28)\<lparr>current_heat := 18, active := False\<rparr>, 0 ## 0 ## sconst 0))"
    using B by (simp add: hot_example_heat rolls_5_5_0_0 Let_def split: prod.splits)
  have c: "apply_heat_phase (hot_example 28) [] (sconst 0)
       = Some (Inr ((hot_example 28)\<lparr>current_heat := 18\<rparr>, sconst 0))"
    using C by (simp add: hot_example_heat constant_rolls Let_def split: prod.splits)
  have d: "apply_heat_phase (hot_example 28) [] (0 ## 0 ## 5 ## 5 ## 7 ## sconst 0)
       = ammo_explosion ''LT'' ''Ammo Machine Gun'' ((hot_example 28)\<lparr>current_heat := 18\<rparr>) (sconst 0)"
    using D by (simp add: hot_example_28 rolls_5_5_0_0 rolls_0_0_5_5_7 Let_def mount_machine_gun
        del: append.simps)
  from h28 h40 hot_example_ammo a b c d show ?thesis by (intro conjI)
qed

text \<open>
  C3, as stated, fails twice. At an updated heat of 18 with ammo on board, an ammo roll
  of 12, which the claim says avoids the explosion, sets off the machine-gun ammo in the
  left torso. And at an updated heat of 30 with ammo on board the phase ends in the
  automatic shutdown without any roll: the random stream is returned untouched.
\<close>

theorem heat_explosion_on_high_roll_counterexample:
  "updated_heat (hot_example 28) [] = 18
   \<and> fst (roll_2d6 (5 ## 5 ## 7 ## sconst 0)) = 12
   \<and> \<not> loc_destroyed (hot_example 28) ''LT''
   \<and> (case apply_heat_phase (hot_example 28) [] (0 ## 0 ## 5 ## 5 ## 7 ## sconst 0) of
        Some (Inr (m', r')) \<Rightarrow> loc_destroyed m' ''LT''
      | _ \<Rightarrow> False)
   \<and> updated_heat (hot_example 40) [] = 30
   \<and> list_ex has_ammo (weapons (hot_example 40))
   \<and> apply_heat_phase (hot_example 40) [] (0 ## 0 ## 5 ## 5 ## 7 ## sconst 0)
       = Some (Inr ((hot_example 40)\<lparr>current_heat := 30, active := False\<rparr>,
                    0 ## 0 ## 5 ## 5 ## 7 ## sconst 0))"
proof -
  have lt: "map_of (locations ((hot_example 28)\<lparr>current_heat := 18\<rparr>)) ''LT''
      = Some (new_location ''LT'' 2 1 5 [''Machine Gun'', ''Ammo Machine Gun''] True)"
    by (simp add: hot_example_def example_mech_def)
  have cs: "has_case (new_location ''LT'' 2 1 5 [''Machine Gun'', ''Ammo Machine Gun''] True)"
    by (simp add: new_location_def)
  from ammo_explosion_contained[OF lt cs, of "''Ammo Machine Gun''" "sconst 0"]
  obtain m' where ex: "ammo_explosion ''LT'' ''Ammo Machine Gun'' ((hot_example 28)\<lparr>current_heat := 18\<rparr>) (sconst 0)
      = Some (Inr (m', sconst 0))" and d: "loc_destroyed m' ''LT''"
    by (auto simp: loc_destroyed_def)
  have run: "apply_heat_phase (hot_example 28) [] (0 ## 0 ## 5 ## 5 ## 7 ## sconst 0) = Some (Inr (m', sconst 0))"
    by (simp add: apply_heat_phase_def ammo_risk_check_def hot_example_28 rolls_0_0_5_5_7
        Let_def mount_machine_gun ex[unfolded hot_example_28] del: append.simps)
  have nd: "\<not> loc_destroyed (hot_example 28) ''LT''"
    by (simp add: loc_destroyed_def hot_example_def example_mech_def new_location_def)
  have u40: "updated_heat (hot_example 40) [] = 30" "list_ex has_ammo (weapons (hot_example 40))"
    by (simp_all add: updated_heat_def hot_example_def example_mech_def calculate_heat_generated_def
      movement_heat_def calculate_heat_dissipation_def has_ammo_def mount_def AC20_def)
  have run40: "apply_heat_phase (hot_example 40) [] (0 ## 0 ## 5 ## 5 ## 7 ## sconst 0)
       = Some (Inr ((hot_example 40)\<lparr>current_heat := 30, active := False\<rparr>,
                    0 ## 0 ## 5 ## 5 ## 7 ## sconst 0))"
    by (simp add: apply_heat_phase_def u40 shutdown_check_def)
  show ?thesis
    using run d nd u40 run40 by (simp add: hot_example_28 rolls_0_0_5_5_7)
qed

section \<open>Fight loop and movement policy\<close>

lemma call_calculate_heat_dissipation_raises:
  "call_calculate_heat_dissipation m heat_factor = Inl TypeError"
  by (simp add: call_calculate_heat_dissipation_def positional_call_ok_def)

lemma call_apply_heat_phase_raises:
  "call_apply_heat_phase m ws debug heat_factor r = Some (Inl TypeError)"
  by (simp add: call_apply_heat_phase_def positional_call_ok_def)

lemma heat_neutral_dpr_cases:
  "heat_neutral_dpr m d heat_factor =
     (if in_range_heat m d \<le> 0 then Inr (of_int (in_range_damage m d)) else Inl TypeError)"
  by (simp add: heat_neutral_dpr_def call_calculate_heat_dissipation_raises)

lemma heat_neutral_dpr_error: "heat_neutral_dpr m d heat_factor = Inl e \<Longrightarrow> e = TypeError"
  by (simp add: heat_neutral_dpr_cases split: if_splits)

lemma preferred_range_loop_error:
  "preferred_range_loop m opp heat_factor ds best adv = Inl e \<Longrightarrow> e = TypeError"
  by (induction ds arbitrary: best adv)
    (auto split: sum.splits if_splits dest: heat_neutral_dpr_error)

lemma find_preferred_range_error: "find_preferred_range m opp mx heat_factor = Inl e \<Longrightarrow> e = TypeError"
  unfolding find_preferred_range_def by (rule preferred_range_loop_error)

lemma optimal_movement_error: "optimal_movement a b d heat_factor = Inl e \<Longrightarrow> e = TypeError"
  by (auto simp: optimal_movement_def Let_def split: sum.splits if_splits dest: heat_neutral_dpr_error)

lemma select_weapons_to_fire_cases:
  "select_weapons_to_fire m d heat_factor =
     (if filter (\<lambda>i. can_fire d (weapons m ! i)) [0..<length (weapons m)] = [] then Inr []
      else Inl TypeError)"
  by (simp add: select_weapons_to_fire_def call_calculate_heat_dissipation_raises Let_def)

lemma movement_phase_result:
  "movement_phase debug movement_ai heat_factor s = Inl e \<Longrightarrow> e = TypeError"
  "movement_phase debug movement_ai heat_factor s = Inr s1 \<Longrightarrow>
     active (mech_a s1) = active (mech_a s) \<and> active (mech_b s1) = active (mech_b s)"
  by (auto simp: movement_phase_def Let_def
      split: sum.splits if_splits prod.splits option.splits
      dest: optimal_movement_error find_preferred_range_error)

text \<open>
  Every round that is entered raises: a unit with a weapon that can fire raises in the
  weapon selection, and otherwise the heat phase of side A is called with one argument
  too many.
\<close>

lemma fight_round_raises:
  assumes "active (mech_a s)"
  shows "fight_round n debug closing_rate movement_ai heat_factor s = Some (Inl TypeError)"
proof (cases "movement_phase debug movement_ai heat_factor (s\<lparr>last_round := n\<rparr>)")
  case (Inl e)
  with movement_phase_result(1)[OF Inl] show ?thesis
    by (simp add: fight_round_def)
next
  case (Inr s1)
  from movement_phase_result(2)[OF Inr] assms have a: "active (mech_a s1)" by simp
  show ?thesis
    using a by (simp add: fight_round_def Inr select_weapons_to_fire_cases resolve_all_attacks_def
        call_apply_heat_phase_raises)
qed

lemma fight_raises:
  assumes "active a" and "active b" and "1 \<le> max_rounds"
  shows "fight a b distance max_rounds debug closing_rate movement_ai heat_factor r = Some (Inl TypeError)"
proof -
  have "[1..max_rounds] = 1 # [2..max_rounds]"
    using assms(3) by (simp add: upto_rec1)
  then show ?thesis
    using assms(1,2) by (simp add: fight_def fight_round_raises Let_def)
qed

text \<open>
  Without a round, because the cap is below 1 or a unit is inactive from the start,
  \<open>fight\<close> returns the verdict of \<open>decide_winner\<close> on the units as given.
\<close>

lemma fight_without_round:
  assumes "max_rounds < 1 \<or> \<not> active a \<or> \<not> active b"
  shows "fight a b distance max_rounds debug closing_rate movement_ai heat_factor r =
     Some (Inr (\<lparr>winner = fst (decide_winner a b (max_total_hp a) (max_total_hp b)),
                  winner_name = snd (decide_winner a b (max_total_hp a) (max_total_hp b)),
                  rounds = 0, mech_a_remaining_hp = total_hp a, mech_b_remaining_hp = total_hp b,
                  mech_a_damage_dealt = 0, mech_b_damage_dealt = 0\<rparr>, a, b, r))"
proof (cases "max_rounds < 1")
  case True
  then have "[1..max_rounds] = []" by simp
  then show ?thesis
    by (simp add: fight_def Let_def split: prod.splits)
next
  case False
  then have "[1..max_rounds] = 1 # [2..max_rounds]"
    by (simp add: upto_rec1)
  with assms False show ?thesis
    by (auto simp add: fight_def Let_def split: prod.splits)
qed

lemma decide_winner_rules:
  "active a \<and> \<not> active b \<Longrightarrow> fst (decide_winner a b ha hb) = Some ''A''"
  "active b \<and> \<not> active a \<Longrightarrow> fst (decide_winner a b ha hb) = Some ''B''"
  "\<not> active a \<and> \<not> active b \<Longrightarrow> fst (decide_winner a b ha hb) = None"
  by (auto simp: decide_winner_def Let_def)

lemma decide_winner_fraction:
  assumes "active a" and "active b" and "ha > 0" and "hb > 0"
  shows "fst (decide_winner a b ha hb) =
       (if total_hp a * hb > total_hp b * ha then Some ''A''
        else if total_hp b * ha > total_hp a * hb then Some ''B'' else None)"
proof -
  have pos: "(0::rat) < of_int ha" "(0::rat) < of_int hb"
    using assms(3,4) by simp_all
  have 1: "(of_int (total_hp b) / of_int hb < (of_int (total_hp a) / of_int ha :: rat))
      \<longleftrightarrow> total_hp b * ha < total_hp a * hb"
    using pos by (simp add: divide_less_eq less_divide_eq flip: of_int_mult)
  have 2: "(of_int (total_hp a) / of_int ha < (of_int (total_hp b) / of_int hb :: rat))
      \<longleftrightarrow> total_hp a * hb < total_hp b * ha"
    using pos by (simp add: divide_less_eq less_divide_eq flip: of_int_mult)
  show ?thesis
    using assms by (simp add: decide_winner_def Let_def 1 2)
qed

text \<open>
  C1. The fight between two fresh copies of the example unit, with the default
  arguments of \<open>fight\<close>, does not return a result: it raises \<open>TypeError\<close> in its first
  round.
\<close>

theorem fight_raises_type_error:
  "fight (example_mech ''standard'') (example_mech ''standard'') 6 50 False 0 ''closure'' 1 (sconst 0)
     = Some (Inl TypeError)"
  by (rule fight_raises) (simp_all add: example_mech_def)

lemma optimal_movement_closure:
  assumes "optimal_movement a b d heat_factor = Inr (a_mode, a_hexes, b_mode, b_hexes, new_d)"
  shows "heat_neutral_dpr a d heat_factor = Inr (of_int (in_range_damage a d))"
    and "heat_neutral_dpr b d heat_factor = Inr (of_int (in_range_damage b d))"
    and "in_range_damage a d > in_range_damage b d \<Longrightarrow>
           a_mode = ''walk'' \<and> b_mode = ''run'' \<and> new_d = max 1 (d - (b_hexes - a_hexes))"
    and "in_range_damage b d > in_range_damage a d \<Longrightarrow>
           a_mode = ''run'' \<and> b_mode = ''walk'' \<and> new_d = max 1 (d - (a_hexes - b_hexes))"
    and "in_range_damage a d = in_range_damage b d \<Longrightarrow>
           a_mode = ''walk'' \<and> b_mode = ''walk'' \<and> new_d = max 1 (d - (a_hexes + b_hexes))"
    and "1 \<le> d \<Longrightarrow> (a_mode = ''walk'' \<and> b_mode = ''run'' \<longrightarrow> a_hexes \<le> b_hexes)
           \<Longrightarrow> (a_mode = ''run'' \<and> b_mode = ''walk'' \<longrightarrow> b_hexes \<le> a_hexes) \<Longrightarrow> new_d \<le> d"
  using assms
  by (auto simp: optimal_movement_def heat_neutral_dpr_cases Let_def split: if_splits)

text \<open>
  C5. Under the range-optimizing policy the distance can grow: a kiting unit that walks
  8 hexes against a closing unit that runs 5 opens the range from 1 to 4. And for two
  units with heat-generating weapons in range the policy returns no movement at all: it
  raises \<open>TypeError\<close>.
\<close>

theorem optimal_movement_opens_range:
  "optimal_movement kiter_example closer_example 1 1 = Inr (''walk'', 8, ''run'', 5, 4)
   \<and> optimal_movement (example_mech ''standard'') (example_mech ''standard'') 3 1 = Inl TypeError"
  by (simp add: optimal_movement_def heat_neutral_dpr_cases in_range_heat_def in_range_damage_def
      kiter_example_def closer_example_def example_mech_def can_fire_def get_range_modifier_def
      mount_def MACHINE_GUN_def AC20_def MEDIUM_LASER_def total_dmg_def get_heat_mp_penalty_def Let_def)

section \<open>Contained explosions and the fight verdict\<close>

text \<open>
  C10. An ammo explosion in a location with CASE returns with that location's front
  armor, rear armor and structure at zero, the location and every weapon mounted there
  destroyed, and the unit's \<open>active\<close> flag as it was; when the location is the center
  torso or the head, or a side torso of an XL-engine unit, \<open>is_dead\<close> holds afterwards
  although \<open>active\<close> is unchanged, so the verdict of the fight loop, which reads only
  the \<open>active\<close> flags, still gives the fight to such a unit against an inactive opponent.
\<close>

theorem case_explosion_keeps_active:
  assumes "map_of (locations m) location_id = Some loc" and "has_case loc"
  shows "\<exists>m' loc'. ammo_explosion location_id ammo_slot m r = Some (Inr (m', r))
           \<and> map_of (locations m') location_id = Some loc'
           \<and> current_armor loc' = 0 \<and> rear_current_armor loc' = 0 \<and> current_structure loc' = 0
           \<and> Location.destroyed loc'
           \<and> (\<forall>mw \<in> set (weapons m'). location mw = location_id \<longrightarrow> MountedWeapon.destroyed mw)
           \<and> active m' = active m
           \<and> (location_id \<in> {''CT'', ''HD''} \<or> engine_type m = ''xl'' \<and> location_id \<in> {''LT'', ''RT''}
                \<longrightarrow> is_dead m')
           \<and> (active m \<longrightarrow>
                (\<forall>b ha hb. \<not> active b \<longrightarrow> fst (decide_winner m' b ha hb) = Some ''A''))"
proof -
  from ammo_explosion_contained[OF assms, of ammo_slot r]
  obtain m' loc' where c: "ammo_explosion location_id ammo_slot m r = Some (Inr (m', r))
           \<and> map_of (locations m') location_id = Some loc'
           \<and> current_armor loc' = 0 \<and> rear_current_armor loc' = 0 \<and> current_structure loc' = 0
           \<and> Location.destroyed loc'
           \<and> (\<forall>mw \<in> set (weapons m'). location mw = location_id \<longrightarrow> MountedWeapon.destroyed mw)
           \<and> active m' = active m
           \<and> (location_id \<in> {''CT'', ''HD''} \<or> engine_type m = ''xl'' \<and> location_id \<in> {''LT'', ''RT''}
                \<longrightarrow> is_dead m')"
    by (elim exE) (rule that)
  then have act: "active m' = active m" by simp
  have "fst (decide_winner m' b ha hb) = Some ''A''" if "active m" "\<not> active b" for b ha hb
    using that act by (intro decide_winner_rules(1)) simp
  then have w: "active m \<longrightarrow>
      (\<forall>b ha hb. \<not> active b \<longrightarrow> fst (decide_winner m' b ha hb) = Some ''A'')"
    by (intro impI allI)
  from c w show ?thesis
    by (intro exI[of _ m'] exI[of _ loc'] conjI) (elim conjE; assumption)+
qed

theorem case_explosion_keeps_active_witness:
  "map_of (locations (example_mech ''xl'')) ''LT''
     = Some (new_location ''LT'' 2 1 5 [''Machine Gun'', ''Ammo Machine Gun''] True)
   \<and> has_case (new_location ''LT'' 2 1 5 [''Machine Gun'', ''Ammo Machine Gun''] True)
   \<and> (\<exists>m'. ammo_explosion ''LT'' ''Ammo Machine Gun'' (example_mech ''xl'') (sconst 0)
              = Some (Inr (m', sconst 0))
          \<and> active m' \<and> is_dead m'
          \<and> fst (decide_winner m' ((example_mech ''xl'')\<lparr>active := False\<rparr>) 42 42) = Some ''A'')"
proof -
  have h2: "has_case (new_location ''LT'' 2 1 5 [''Machine Gun'', ''Ammo Machine Gun''] True)"
    by (simp add: new_location_def)
  have a: "active (example_mech ''xl'')" and e: "engine_type (example_mech ''xl'') = ''xl''"
    and nb: "\<not> active ((example_mech ''xl'')\<lparr>active := False\<rparr>)"
    by (simp_all add: example_mech_def)
  have c: "''LT'' \<in> {''CT'', ''HD''} \<or> engine_type (example_mech ''xl'') = ''xl'' \<and> ''LT'' \<in> {''LT'', ''RT''}"
    by (simp add: e)
  obtain m' loc' where all: "ammo_explosion ''LT'' ''Ammo Machine Gun'' (example_mech ''xl'') (sconst 0) = Some (Inr (m', sconst 0))
           \<and> map_of (locations m') ''LT'' = Some loc'
           \<and> current_armor loc' = 0 \<and> rear_current_armor loc' = 0 \<and> current_structure loc' = 0
           \<and> Location.destroyed loc'
           \<and> (\<forall>mw \<in> set (weapons m'). location mw = ''LT'' \<longrightarrow> MountedWeapon.destroyed mw)
           \<and> active m' = active (example_mech ''xl'')
           \<and> (''LT'' \<in> {''CT'', ''HD''} \<or> engine_type (example_mech ''xl'') = ''xl'' \<and> ''LT'' \<in> {''LT'', ''RT''}
                \<longrightarrow> is_dead m')
           \<and> (active (example_mech ''xl'') \<longrightarrow>
                (\<forall>b ha hb. \<not> active b \<longrightarrow> fst (decide_winner m' b ha hb) = Some ''A''))"
    using case_explosion_keeps_active[OF example_mech_LT h2, of "''Ammo Machine Gun''" "''xl''" "sconst 0"]
    by (elim exE) (rule that)
  note r = conjunct1[OF all]
  note rest = all[THEN conjunct2, THEN conjunct2, THEN conjunct2, THEN conjunct2, THEN conjunct2,
      THEN conjunct2, THEN conjunct2]
  note a' = conjunct1[OF rest] and d = conjunct1[OF conjunct2[OF rest]]
    and w = conjunct2[OF conjunct2[OF rest]]
  from d c have dead: "is_dead m'" by (rule mp)
  from a' a have act: "active m'" by (rule iffD2)
  from w a have "\<forall>b ha hb. \<not> active b \<longrightarrow> fst (decide_winner m' b ha hb) = Some ''A''"
    by (rule mp)
  with nb have win: "fst (decide_winner m' ((example_mech ''xl'')\<lparr>active := False\<rparr>) 42 42) = Some ''A''"
    by blast
  have "\<exists>m'. ammo_explosion ''LT'' ''Ammo Machine Gun'' (example_mech ''xl'') (sconst 0) = Some (Inr (m', sconst 0))
          \<and> active m' \<and> is_dead m'
          \<and> fst (decide_winner m' ((example_mech ''xl'')\<lparr>active := False\<rparr>) 42 42) = Some ''A''"
    using r act dead win by (intro exI[of _ m'] conjI)
  with example_mech_LT h2 show ?thesis by (intro conjI)
qed

section \<open>Damage bookkeeping\<close>

lemma total_hp_sum: "total_hp m = (\<Sum>(k, loc) \<leftarrow> locations m. loc_hp loc)"
proof -
  have "(\<Sum>(k, loc) \<leftarrow> ls. current_armor loc + rear_current_armor loc)
        + (\<Sum>(k, loc) \<leftarrow> ls. current_structure loc) = (\<Sum>(k, loc) \<leftarrow> ls. loc_hp loc)" for ls :: "(string \<times> Location) list"
    by (induction ls) (auto simp: loc_hp_def)
  then show ?thesis
    by (simp add: total_hp_def total_armor_def total_structure_def)
qed

lemma hp_update:
  assumes "map_of ls k = Some l"
  shows "(\<Sum>(k, loc) \<leftarrow> AList.update k l' ls. loc_hp loc) = (\<Sum>(k, loc) \<leftarrow> ls. loc_hp loc) - loc_hp l + loc_hp l'"
  using assms by (induction ls) (auto split: if_splits)

lemma total_hp_set_location:
  assumes "map_of (locations m) k = Some l"
  shows "total_hp (set_location k l' m) = total_hp m - loc_hp l + loc_hp l'"
  using hp_update[OF assms] by (simp add: total_hp_sum set_location_def)

lemma total_hp_weapons [simp]: "total_hp (m\<lparr>weapons := ws\<rparr>) = total_hp m"
  by (simp add: total_hp_sum)

lemma total_hp_active [simp]: "total_hp (m\<lparr>active := x\<rparr>) = total_hp m"
  by (simp add: total_hp_sum)

lemma total_hp_mark_destroyed:
  assumes "map_of (locations m) k = Some l"
  shows "total_hp (mark_destroyed k l m) = total_hp m"
  using total_hp_set_location[OF assms, of "l\<lparr>Location.destroyed := True\<rparr>"]
  by (simp add: mark_destroyed_def loc_hp_def)

lemma well_formed_lookup:
  assumes "well_formed m" and "map_of (locations m) k = Some loc"
  shows "Location.name loc = k" and "k \<in> set (map fst TRANSFER_MAP)"
    and "0 \<le> current_armor loc" and "0 \<le> rear_current_armor loc" and "0 \<le> current_structure loc"
  using assms map_of_SomeD[OF assms(2)] unfolding well_formed_def by auto

lemma well_formed_update:
  assumes "well_formed m" and "map_of (locations m) k = Some l"
    and "Location.name l' = Location.name l"
    and "0 \<le> current_armor l'" and "0 \<le> rear_current_armor l'" and "0 \<le> current_structure l'"
  shows "well_formed (set_location k l' m)"
proof -
  note wl = well_formed_lookup[OF assms(1,2)]
  have "\<forall>(k, loc) \<in> set (AList.update k l' ls).
        Location.name loc = k \<and> k \<in> set (map fst TRANSFER_MAP)
        \<and> 0 \<le> current_armor loc \<and> 0 \<le> rear_current_armor loc \<and> 0 \<le> current_structure loc"
    if "\<forall>(k, loc) \<in> set ls.
        Location.name loc = k \<and> k \<in> set (map fst TRANSFER_MAP)
        \<and> 0 \<le> current_armor loc \<and> 0 \<le> rear_current_armor loc \<and> 0 \<le> current_structure loc"
    for ls
    using that wl assms(3-) by (induction ls) (auto split: if_splits)
  with assms(1) show ?thesis
    by (simp add: well_formed_def set_location_def)
qed

lemma well_formed_fields [simp]:
  "well_formed (m\<lparr>weapons := ws\<rparr>) = well_formed m"
  "well_formed (m\<lparr>active := x\<rparr>) = well_formed m"
  by (simp_all add: well_formed_def)

lemma well_formed_names_ok: "well_formed m \<Longrightarrow> names_ok m"
  by (auto simp: well_formed_def names_ok_def)

lemma no_transfer_is_fatal:
  assumes "well_formed m" and "map_of (locations m) k = Some loc" and "transfer_to loc = None"
    and "Location.destroyed loc"
  shows "is_dead m"
proof -
  note wl = well_formed_lookup[OF assms(1,2)]
  from wl(2) assms(3) wl(1) have "k = ''HD'' \<or> k = ''CT''"
    by (auto simp: transfer_to_def TRANSFER_MAP_def split: option.splits if_splits)
  with assms(2,4) show ?thesis
    by (auto simp: is_dead_def loc_destroyed_def)
qed

lemma absorb_armor_hp:
  assumes "absorb_armor k is_rear loc d = (loc1, d1)"
    and "0 \<le> current_armor loc" and "0 \<le> rear_current_armor loc" and "0 \<le> d"
  shows "0 \<le> d1" and "d1 \<le> d" and "loc_hp loc1 = loc_hp loc - (d - d1)"
    and "0 \<le> current_armor loc1" and "0 \<le> rear_current_armor loc1"
  using assms by (auto simp: absorb_armor_def Let_def loc_hp_def split: if_splits)

lemma ammo_update:
  assumes "map_of ls k = Some l"
  shows "(\<Sum>(k, loc) \<leftarrow> AList.update k l' ls. length (filter P (crittable_slots loc)))
           + length (filter P (crittable_slots l))
       = (\<Sum>(k, loc) \<leftarrow> ls. length (filter P (crittable_slots loc)))
           + length (filter P (crittable_slots l'))"
  using assms by (induction ls) (auto split: if_splits)

lemma ammo_slots_set_location:
  assumes "map_of (locations m) k = Some l"
  shows "ammo_slots (set_location k l' m) + length (filter (\<lambda>s. take 4 s = ''Ammo'') (crittable_slots l))
       = ammo_slots m + length (filter (\<lambda>s. take 4 s = ''Ammo'') (crittable_slots l'))"
  using ammo_update[OF assms] by (simp add: ammo_slots_def set_location_def)

lemma ammo_slots_same:
  assumes "map_of (locations m) k = Some l" and "crittable_slots l' = crittable_slots l"
  shows "ammo_slots (set_location k l' m) = ammo_slots m"
  using ammo_slots_set_location[OF assms(1), of l'] assms(2) by simp

lemma ammo_slots_fields [simp]:
  "ammo_slots (m\<lparr>weapons := ws\<rparr>) = ammo_slots m"
  "ammo_slots (m\<lparr>active := x\<rparr>) = ammo_slots m"
  by (simp_all add: ammo_slots_def)

lemma ammo_after_marking:
  assumes "take 4 item \<noteq> ''Ammo''"
  shows "filter (\<lambda>s. take 4 s = ''Ammo'') (map (\<lambda>s. if s = item then ''DESTROYED'' else s) slots)
       = filter (\<lambda>s. take 4 s = ''Ammo'') slots"
  using assms by (induction slots) auto

lemma ammo_after_marking_le:
  "length (filter (\<lambda>s. take 4 s = ''Ammo'') (map (\<lambda>s. if s = item then ''DESTROYED'' else s) slots))
     \<le> length (filter (\<lambda>s. take 4 s = ''Ammo'') slots)"
  by (induction slots) auto

lemma crit_weapon_ammo:
  "length (filter (\<lambda>s. take 4 s = ''Ammo'') (snd (crit_weapon k item ws slots)))
     \<le> length (filter (\<lambda>s. take 4 s = ''Ammo'') slots)"
  "take 4 item \<noteq> ''Ammo'' \<Longrightarrow>
   filter (\<lambda>s. take 4 s = ''Ammo'') (snd (crit_weapon k item ws slots))
     = filter (\<lambda>s. take 4 s = ''Ammo'') slots"
proof -
  show "length (filter (\<lambda>s. take 4 s = ''Ammo'') (snd (crit_weapon k item ws slots)))
     \<le> length (filter (\<lambda>s. take 4 s = ''Ammo'') slots)"
    using ammo_after_marking_le[of item slots]
    by (induction ws) (auto split: prod.splits)
  show "filter (\<lambda>s. take 4 s = ''Ammo'') (snd (crit_weapon k item ws slots))
     = filter (\<lambda>s. take 4 s = ''Ammo'') slots" if "take 4 item \<noteq> ''Ammo''"
    using ammo_after_marking[OF that, of slots]
    by (induction ws) (auto split: prod.splits)
qed

lemma ammo_after_hit:
  assumes "i < length slots"
  shows "take 4 (slots ! i) = ''Ammo'' \<Longrightarrow>
           Suc (length (filter (\<lambda>s. take 4 s = ''Ammo'') (slots[i := ''DESTROYED''])))
             = length (filter (\<lambda>s. take 4 s = ''Ammo'') slots)"
    and "take 4 (slots ! i) \<noteq> ''Ammo'' \<Longrightarrow>
           filter (\<lambda>s. take 4 s = ''Ammo'') (slots[i := ''DESTROYED''])
             = filter (\<lambda>s. take 4 s = ''Ammo'') slots"
  using assms
proof (induction slots arbitrary: i)
  case Nil
  { case 1 then show ?case by simp }
  { case 2 then show ?case by simp }
next
  case (Cons s slots)
  { case 1 with Cons(1)[of "i - 1"] show ?case by (cases i) auto }
  { case 2 with Cons(2)[of "i - 1"] show ?case by (cases i) auto }
qed

lemma crit_hit_accounts:
  assumes "well_formed m" and "map_of (locations m) k = Some loc"
    and "i < length (crittable_slots loc)"
  shows "well_formed (crit_hit k loc i m)" and "total_hp (crit_hit k loc i m) = total_hp m"
    and "take 4 (crittable_slots loc ! i) = ''Ammo'' \<Longrightarrow> ammo_slots (crit_hit k loc i m) < ammo_slots m"
    and "take 4 (crittable_slots loc ! i) \<noteq> ''Ammo'' \<Longrightarrow> ammo_slots (crit_hit k loc i m) = ammo_slots m"
proof -
  obtain ws1 slots2 where cw: "crit_weapon k (crittable_slots loc ! i) (weapons m)
      ((crittable_slots loc)[i := ''DESTROYED'']) = (ws1, slots2)"
    by (cases "crit_weapon k (crittable_slots loc ! i) (weapons m) ((crittable_slots loc)[i := ''DESTROYED''])")
  have ch: "crit_hit k loc i m = (set_location k (loc\<lparr>crittable_slots := slots2\<rparr>) m)\<lparr>weapons := ws1\<rparr>"
    by (simp add: crit_hit_def Let_def cw)
  note wl = well_formed_lookup[OF assms(1,2)]
  show "well_formed (crit_hit k loc i m)"
    unfolding ch using well_formed_update[OF assms(1,2), of "loc\<lparr>crittable_slots := slots2\<rparr>"] wl
    by simp
  show "total_hp (crit_hit k loc i m) = total_hp m"
    unfolding ch using total_hp_set_location[OF assms(2), of "loc\<lparr>crittable_slots := slots2\<rparr>"]
    by (simp add: loc_hp_def)
  have cwa1: "length (filter (\<lambda>s. take 4 s = ''Ammo'') slots2)
      \<le> length (filter (\<lambda>s. take 4 s = ''Ammo'') ((crittable_slots loc)[i := ''DESTROYED'']))"
    using crit_weapon_ammo(1)[of k "crittable_slots loc ! i" "weapons m" "(crittable_slots loc)[i := ''DESTROYED'']"]
    by (simp add: cw)
  have cwa2: "filter (\<lambda>s. take 4 s = ''Ammo'') slots2
      = filter (\<lambda>s. take 4 s = ''Ammo'') ((crittable_slots loc)[i := ''DESTROYED''])"
    if "take 4 (crittable_slots loc ! i) \<noteq> ''Ammo''"
    using crit_weapon_ammo(2)[OF that, of k "weapons m" "(crittable_slots loc)[i := ''DESTROYED'']"]
    by (simp add: cw)
  note su = ammo_slots_set_location[OF assms(2), of "loc\<lparr>crittable_slots := slots2\<rparr>"]
  show "ammo_slots (crit_hit k loc i m) < ammo_slots m" if "take 4 (crittable_slots loc ! i) = ''Ammo''"
    unfolding ch using su cwa1 ammo_after_hit(1)[OF assms(3) that] by simp
  show "ammo_slots (crit_hit k loc i m) = ammo_slots m" if "take 4 (crittable_slots loc ! i) \<noteq> ''Ammo''"
    unfolding ch using su cwa2[OF that] ammo_after_hit(2)[OF assms(3) that] by simp
qed

lemma mark_destroyed_accounts:
  assumes "well_formed m" and "map_of (locations m) k = Some loc"
  shows "well_formed (mark_destroyed k loc m)" and "total_hp (mark_destroyed k loc m) = total_hp m"
    and "ammo_slots (mark_destroyed k loc m) = ammo_slots m"
proof -
  note wl = well_formed_lookup[OF assms]
  show "well_formed (mark_destroyed k loc m)"
    unfolding mark_destroyed_def
    using well_formed_update[OF assms, of "loc\<lparr>Location.destroyed := True\<rparr>"] wl by simp
  show "total_hp (mark_destroyed k loc m) = total_hp m"
    by (rule total_hp_mark_destroyed[OF assms(2)])
  show "ammo_slots (mark_destroyed k loc m) = ammo_slots m"
    unfolding mark_destroyed_def
    using ammo_slots_same[OF assms(2), of "loc\<lparr>Location.destroyed := True\<rparr>"] by simp
qed

lemma contain_explosion_accounts:
  assumes "well_formed m" and "map_of (locations m) k = Some loc"
  shows "well_formed (contain_explosion k loc m)" and "total_hp (contain_explosion k loc m) \<le> total_hp m"
    and "ammo_slots (contain_explosion k loc m) = ammo_slots m"
proof -
  let ?l = "loc\<lparr>current_structure := 0, current_armor := 0, rear_current_armor := 0,
             Location.destroyed := True\<rparr>"
  note wl = well_formed_lookup[OF assms]
  show "well_formed (contain_explosion k loc m)"
    unfolding contain_explosion_def
    using well_formed_update[OF assms, of ?l] by simp
  show "total_hp (contain_explosion k loc m) \<le> total_hp m"
    unfolding contain_explosion_def
    using total_hp_set_location[OF assms(2), of ?l] wl by (simp add: loc_hp_def)
  show "ammo_slots (contain_explosion k loc m) = ammo_slots m"
    unfolding contain_explosion_def
    using ammo_slots_same[OF assms(2), of ?l] by simp
qed

lemma set_location_accounts:
  assumes "well_formed m" and "map_of (locations m) k = Some loc"
    and "Location.name loc' = Location.name loc" and "crittable_slots loc' = crittable_slots loc"
    and "0 \<le> current_armor loc'" and "0 \<le> rear_current_armor loc'" and "0 \<le> current_structure loc'"
  shows "well_formed (set_location k loc' m)"
    and "total_hp (set_location k loc' m) = total_hp m - loc_hp loc + loc_hp loc'"
    and "ammo_slots (set_location k loc' m) = ammo_slots m"
    and "map_of (locations (set_location k loc' m)) k = Some loc'"
proof -
  show "well_formed (set_location k loc' m)"
    by (rule well_formed_update[OF assms(1,2,3,5,6,7)])
  show "total_hp (set_location k loc' m) = total_hp m - loc_hp loc + loc_hp loc'"
    by (rule total_hp_set_location[OF assms(2)])
  show "ammo_slots (set_location k loc' m) = ammo_slots m"
    by (rule ammo_slots_same[OF assms(2,4)])
  show "map_of (locations (set_location k loc' m)) k = Some loc'"
    by (simp add: set_location_def update_conv')
qed

lemma accounted_cases:
  "accounted (ApplyDamage k d is_rear) m m' \<longleftrightarrow>
     well_formed m' \<and> ammo_slots m' \<le> ammo_slots m \<and> total_hp m' \<le> total_hp m
     \<and> (\<not> is_dead m' \<longrightarrow> d \<le> total_hp m - total_hp m')
     \<and> (ammo_slots m' = ammo_slots m \<longrightarrow> total_hp m - total_hp m' \<le> d)"
  "accounted (ApplyCrits k n) m m' \<longleftrightarrow>
     well_formed m' \<and> ammo_slots m' \<le> ammo_slots m \<and> total_hp m' \<le> total_hp m
     \<and> (ammo_slots m' = ammo_slots m \<longrightarrow> total_hp m' = total_hp m)"
  "accounted (CritLoop k j) m m' \<longleftrightarrow>
     well_formed m' \<and> ammo_slots m' \<le> ammo_slots m \<and> total_hp m' \<le> total_hp m
     \<and> (ammo_slots m' = ammo_slots m \<longrightarrow> total_hp m' = total_hp m)"
  "accounted (AmmoExplosion k slot) m m' \<longleftrightarrow>
     well_formed m' \<and> ammo_slots m' \<le> ammo_slots m \<and> total_hp m' \<le> total_hp m"
  by (simp_all add: accounted_def)

lemma transfer_to_destroyed [simp]:
  "transfer_to (loc\<lparr>Location.destroyed := x\<rparr>) = transfer_to loc"
  by (simp add: transfer_to_def)

lemma mark_destroyed_lookup:
  "map_of (locations (mark_destroyed k loc m)) k = Some (loc\<lparr>Location.destroyed := True\<rparr>)"
  by (simp add: mark_destroyed_def set_location_def update_conv')

lemma run_accounted:
  assumes "run c m r = Some (Inr (m', r'))" and "well_formed m" and "damage_ok c"
  shows "accounted c m m'"
proof -
  let ?P = "\<lambda>(c::call) m (r::rng) (res::error + Mech \<times> rng).
      \<forall>m' r'. res = Inr (m', r') \<longrightarrow> well_formed m \<longrightarrow> damage_ok c \<longrightarrow> accounted c m m'"
  have "?P c m r (Inr (m', r'))"
  proof (rule run.raw_induct[where P = ?P, OF _ assms(1)])
    fix f c m r res
    assume IH: "\<And>c m r res. f c m r = Some res \<Longrightarrow> ?P c m r res"
    have IH': "accounted c m m'"
      if "f c m r = Some (Inr (m', r'))" "well_formed m" "damage_ok c" for c m r m' r'
      using IH[OF that(1)] that(2,3) by simp
    assume body: "(case c of
      ApplyDamage location_id dmg is_rear \<Rightarrow>
        (case map_of (locations m) location_id of
          None \<Rightarrow> Some (Inl KeyError)
        | Some loc \<Rightarrow>
            if Location.destroyed loc then
              (case transfer_to loc of
                Some transfer \<Rightarrow> f (ApplyDamage transfer dmg False) m r
              | None \<Rightarrow> Some (Inr (m, r)))
            else
              (let (loc1, dmg1) = absorb_armor location_id is_rear loc dmg in
               if dmg1 \<le> 0 then Some (Inr (set_location location_id loc1 m, r))
               else
                 (let structure_absorbed = min (current_structure loc1) dmg1;
                      loc2 = loc1\<lparr>current_structure := current_structure loc1 - structure_absorbed\<rparr>;
                      dmg2 = dmg1 - structure_absorbed;
                      m2 = set_location location_id loc2 m
                  in and_then
                       (if structure_absorbed > 0 \<and> current_structure loc2 > 0 then
                          (case roll_critical_hits r of
                            Inl e \<Rightarrow> Some (Inl e)
                          | Inr (num_crits, r') \<Rightarrow>
                              if num_crits > 0 then f (ApplyCrits location_id num_crits) m2 r'
                              else Some (Inr (m2, r')))
                        else Some (Inr (m2, r)))
                       (\<lambda>m3 r3.
                          case map_of (locations m3) location_id of
                            None \<Rightarrow> Some (Inl KeyError)
                          | Some loc3 \<Rightarrow>
                              if current_structure loc3 \<le> 0 then
                                (let m4 = mark_destroyed location_id loc3 m3
                                 in if is_dead m4 then Some (Inr (m4\<lparr>active := False\<rparr>, r3))
                                    else if dmg2 > 0 then
                                      (case transfer_to loc3 of
                                        Some transfer \<Rightarrow> f (ApplyDamage transfer dmg2 False) m4 r3
                                      | None \<Rightarrow> Some (Inr (m4, r3)))
                                    else Some (Inr (m4, r3)))
                              else Some (Inr (m3, r3))))))
    | ApplyCrits location_id num_crits \<Rightarrow>
        (case map_of (locations m) location_id of
          None \<Rightarrow> Some (Inl KeyError)
        | Some loc \<Rightarrow>
            if available_slots loc = [] then Some (Inr (m, r))
            else f (CritLoop location_id (nat num_crits)) m r)
    | CritLoop location_id n \<Rightarrow>
        (case n of
          0 \<Rightarrow> Some (Inr (m, r))
        | Suc k \<Rightarrow>
            (case map_of (locations m) location_id of
              None \<Rightarrow> Some (Inl KeyError)
            | Some loc \<Rightarrow>
                if available_slots loc = [] then Some (Inr (m, r))
                else
                  Option.bind (pick_slot (crittable_slots loc) r) (\<lambda>(slot_idx, r1).
                    let hit_item = crittable_slots loc ! slot_idx;
                        m1 = crit_hit location_id loc slot_idx m
                    in and_then
                         (if take 4 hit_item = ''Ammo''
                          then f (AmmoExplosion location_id hit_item) m1 r1
                          else Some (Inr (m1, r1)))
                         (\<lambda>m2 r2. f (CritLoop location_id k) m2 r2))))
    | AmmoExplosion location_id ammo_slot \<Rightarrow>
        (case map_of (locations m) location_id of
          None \<Rightarrow> Some (Inl KeyError)
        | Some loc \<Rightarrow>
            (let (found, ws1) = find_ammo location_id ammo_slot (weapons m);
                 ammo_damage = (if found \<le> 0 then 20 else found);
                 m1 = m\<lparr>weapons := ws1\<rparr>
             in if has_case loc then Some (Inr (contain_explosion location_id loc m1, r))
                else f (ApplyDamage location_id ammo_damage False) m1 r))) = Some res"
    show "?P c m r res"
    proof (intro allI impI)
      fix m' r' assume res: "res = Inr (m', r')" and wf: "well_formed m" and ok: "damage_ok c"
      show "accounted c m m'"
      proof (cases c)
        case (ApplyDamage k d is_rear)
        from ok ApplyDamage have d0: "0 \<le> d" by (simp add: damage_ok_def)
        show ?thesis
        proof (cases "map_of (locations m) k")
          case None
          with body ApplyDamage res show ?thesis by simp
        next
          case (Some loc)
          note lk = Some
          note wl = well_formed_lookup[OF wf lk]
          show ?thesis
          proof (cases "Location.destroyed loc")
            case True
            show ?thesis
            proof (cases "transfer_to loc")
              case None
              with body ApplyDamage lk res True have "m' = m" by simp
              moreover have "is_dead m" by (rule no_transfer_is_fatal[OF wf lk None True])
              ultimately show ?thesis
                using wf d0 unfolding ApplyDamage by (simp add: accounted_cases)
            next
              case (Some t)
              with body ApplyDamage lk res True
              have "f (ApplyDamage t d False) m r = Some (Inr (m', r'))" by simp
              from IH'[OF this wf] d0 show ?thesis
                unfolding ApplyDamage by (simp add: accounted_cases damage_ok_def)
            qed
          next
            case False
            obtain loc1 d1 where aa: "absorb_armor k is_rear loc d = (loc1, d1)"
              by (cases "absorb_armor k is_rear loc d")
            note af = absorb_armor_fields[OF aa]
            note ah = absorb_armor_hp[OF aa wl(3,4) d0]
            have s1: "0 \<le> current_structure loc1" using af wl(5) by simp
            show ?thesis
            proof (cases "d1 \<le> 0")
              case True
              with body ApplyDamage lk res False aa
              have m': "m' = set_location k loc1 m" by simp
              have f1: "Location.name loc1 = Location.name loc" "crittable_slots loc1 = crittable_slots loc"
                using af by simp_all
              note sl = set_location_accounts[OF wf lk f1 ah(4,5) s1]
              have "well_formed m'" "total_hp m' = total_hp m - loc_hp loc + loc_hp loc1"
                "ammo_slots m' = ammo_slots m"
                unfolding m' using sl by simp_all
              with ah True show ?thesis
                unfolding ApplyDamage by (simp add: accounted_cases)
            next
              case d1: False
              define sa where "sa = min (current_structure loc1) d1"
              define loc2 where "loc2 = loc1\<lparr>current_structure := current_structure loc1 - sa\<rparr>"
              define m2 where "m2 = set_location k loc2 m"
              have sa0: "0 \<le> sa" "sa \<le> d1" "sa \<le> current_structure loc1"
                using s1 d1 by (simp_all add: sa_def)
              have l2: "loc_hp loc2 = loc_hp loc1 - sa"
                by (simp add: loc2_def loc_hp_def)
              have f2: "Location.name loc2 = Location.name loc" "crittable_slots loc2 = crittable_slots loc"
                "0 \<le> current_armor loc2" "0 \<le> rear_current_armor loc2" "0 \<le> current_structure loc2"
                using af ah sa0 by (simp_all add: loc2_def)
              note sl = set_location_accounts[OF wf lk f2]
              have wf2: "well_formed m2" and a2: "ammo_slots m2 = ammo_slots m"
                and lk2: "map_of (locations m2) k = Some loc2"
                unfolding m2_def using sl by simp_all
              have hp2: "total_hp m2 = total_hp m - (d - d1) - sa"
                unfolding m2_def using sl(2) l2 ah(3) by simp
              have at: "and_then
                       (if sa > 0 \<and> current_structure loc2 > 0 then
                          (case roll_critical_hits r of
                            Inl e \<Rightarrow> Some (Inl e)
                          | Inr (num_crits, r') \<Rightarrow>
                              if num_crits > 0 then f (ApplyCrits k num_crits) m2 r'
                              else Some (Inr (m2, r')))
                        else Some (Inr (m2, r)))
                       (\<lambda>m3 r3.
                          case map_of (locations m3) k of
                            None \<Rightarrow> Some (Inl KeyError)
                          | Some loc3 \<Rightarrow>
                              if current_structure loc3 \<le> 0 then
                                (let m4 = mark_destroyed k loc3 m3
                                 in if is_dead m4 then Some (Inr (m4\<lparr>active := False\<rparr>, r3))
                                    else if d1 - sa > 0 then
                                      (case transfer_to loc3 of
                                        Some transfer \<Rightarrow> f (ApplyDamage transfer (d1 - sa) False) m4 r3
                                      | None \<Rightarrow> Some (Inr (m4, r3)))
                                    else Some (Inr (m4, r3)))
                              else Some (Inr (m3, r3))) = Some (Inr (m', r'))"
                using body ApplyDamage lk res False aa d1
                unfolding m2_def loc2_def sa_def by (simp add: Let_def)
              from at show ?thesis
              proof (cases rule: and_then_Some)
                case (1 e)
                then show ?thesis by simp
              next
                case (2 m3 r3)
                have crits: "m3 = m2 \<or> (\<exists>n r1. f (ApplyCrits k n) m2 r1 = Some (Inr (m3, r3)))"
                  using 2(1) by (auto split: if_splits sum.splits prod.splits)
                have A3: "well_formed m3 \<and> ammo_slots m3 \<le> ammo_slots m2 \<and> total_hp m3 \<le> total_hp m2
                    \<and> (ammo_slots m3 = ammo_slots m2 \<longrightarrow> total_hp m3 = total_hp m2)"
                proof -
                  from crits consider "m3 = m2" | n r1 where "f (ApplyCrits k n) m2 r1 = Some (Inr (m3, r3))"
                    by blast
                  then show ?thesis
                  proof cases
                    case 1
                    with wf2 show ?thesis by simp
                  next
                    case 2
                    from IH'[OF this wf2] show ?thesis
                      by (simp add: accounted_cases damage_ok_def)
                  qed
                qed
                have F1: "sa = d1 \<or> (m3 = m2 \<and> current_structure loc2 = 0)"
                proof (cases "d1 \<le> current_structure loc1")
                  case True
                  then show ?thesis by (simp add: sa_def)
                next
                  case False
                  then have "current_structure loc2 = 0" by (simp add: loc2_def sa_def)
                  with 2(1) show ?thesis by simp
                qed
                show ?thesis
                proof (cases "map_of (locations m3) k")
                  case None
                  with 2(2) show ?thesis by simp
                next
                  case l3: (Some loc3)
                  show ?thesis
                  proof (cases "current_structure loc3 \<le> 0")
                    case alive: False
                    with 2(2) l3 have m': "m' = m3" by simp
                    have "sa = d1"
                    proof (rule ccontr)
                      assume "sa \<noteq> d1"
                      with F1 have "m3 = m2" "current_structure loc2 = 0" by simp_all
                      with l3 lk2 alive show False by simp
                    qed
                    with A3 hp2 a2 ah sa0 show ?thesis
                      unfolding ApplyDamage m' by (simp add: accounted_cases)
                  next
                    case gone: True
                    define m4 where "m4 = mark_destroyed k loc3 m3"
                    note md = mark_destroyed_accounts[OF conjunct1[OF A3] l3]
                    have wf4: "well_formed m4" and hp4: "total_hp m4 = total_hp m3"
                      and a4: "ammo_slots m4 = ammo_slots m3"
                      unfolding m4_def using md by simp_all
                    have rest: "(if is_dead m4 then Some (Inr (m4\<lparr>active := False\<rparr>, r3))
                                    else if d1 - sa > 0 then
                                      (case transfer_to loc3 of
                                        Some transfer \<Rightarrow> f (ApplyDamage transfer (d1 - sa) False) m4 r3
                                      | None \<Rightarrow> Some (Inr (m4, r3)))
                                    else Some (Inr (m4, r3))) = Some (Inr (m', r'))"
                      using 2(2) l3 gone unfolding m4_def by (simp add: Let_def)
                    show ?thesis
                    proof (cases "is_dead m4")
                      case True
                      with rest have m': "m' = m4\<lparr>active := False\<rparr>" by simp
                      have "is_dead m'" unfolding m' by (simp add: is_dead_def)
                      with A3 hp2 a2 ah sa0 wf4 hp4 a4 show ?thesis
                        unfolding ApplyDamage m' by (simp add: accounted_cases)
                    next
                      case nd: False
                      show ?thesis
                      proof (cases "d1 - sa > 0")
                        case False
                        with rest nd have m': "m' = m4" by simp
                        from False sa0 have "sa = d1" by simp
                        with A3 hp2 a2 ah sa0 wf4 hp4 a4 show ?thesis
                          unfolding ApplyDamage m' by (simp add: accounted_cases)
                      next
                        case more: True
                        show ?thesis
                        proof (cases "transfer_to loc3")
                          case None
                          have "is_dead m4"
                            by (rule no_transfer_is_fatal[OF wf4, of k "loc3\<lparr>Location.destroyed := True\<rparr>"])
                              (simp_all add: m4_def mark_destroyed_lookup None)
                          with nd show ?thesis by simp
                        next
                          case (Some t)
                          with rest nd more
                          have "f (ApplyDamage t (d1 - sa) False) m4 r3 = Some (Inr (m', r'))" by simp
                          from IH'[OF this wf4] more
                          have B: "well_formed m'" "ammo_slots m' \<le> ammo_slots m4" "total_hp m' \<le> total_hp m4"
                            "\<not> is_dead m' \<Longrightarrow> d1 - sa \<le> total_hp m4 - total_hp m'"
                            "ammo_slots m' = ammo_slots m4 \<Longrightarrow> total_hp m4 - total_hp m' \<le> d1 - sa"
                            by (simp_all add: accounted_cases damage_ok_def)
                          have lower: "d \<le> total_hp m - total_hp m'" if "\<not> is_dead m'"
                            using B(4)[OF that] A3 hp2 hp4 by linarith
                          have upper: "total_hp m - total_hp m' \<le> d" if "ammo_slots m' = ammo_slots m"
                          proof -
                            from that B(2) a4 a2 A3 have e: "ammo_slots m' = ammo_slots m4" "ammo_slots m3 = ammo_slots m2"
                              by linarith+
                            from B(5)[OF e(1)] A3 e(2) hp2 hp4 show ?thesis by simp
                          qed
                          have "ammo_slots m' \<le> ammo_slots m" "total_hp m' \<le> total_hp m"
                            using B(2,3) a4 a2 A3 hp2 hp4 ah sa0 by linarith+
                          with B(1) lower upper show ?thesis
                            unfolding ApplyDamage by (simp add: accounted_cases)
                        qed
                      qed
                    qed
                  qed
                qed
              qed
            qed
          qed
        qed
      next
        case (ApplyCrits k n)
        show ?thesis
        proof (cases "map_of (locations m) k")
          case None
          with body ApplyCrits res show ?thesis by simp
        next
          case (Some loc)
          show ?thesis
          proof (cases "available_slots loc = []")
            case True
            with body ApplyCrits res Some have "m' = m" by simp
            with wf show ?thesis unfolding ApplyCrits by (simp add: accounted_cases)
          next
            case False
            with body ApplyCrits res Some
            have "f (CritLoop k (nat n)) m r = Some (Inr (m', r'))" by simp
            from IH'[OF this wf] show ?thesis
              unfolding ApplyCrits by (simp add: accounted_cases damage_ok_def)
          qed
        qed
      next
        case (CritLoop k n)
        show ?thesis
        proof (cases n)
          case 0
          with body res CritLoop have "m' = m" by simp
          with wf show ?thesis unfolding CritLoop by (simp add: accounted_cases)
        next
          case (Suc j)
          show ?thesis
          proof (cases "map_of (locations m) k")
            case None
            with body CritLoop Suc res show ?thesis by simp
          next
            case (Some loc)
            show ?thesis
            proof (cases "available_slots loc = []")
              case True
              with body CritLoop Suc res Some have "m' = m" by simp
              with wf show ?thesis unfolding CritLoop by (simp add: accounted_cases)
            next
              case False
              then have ne: "crittable_slots loc \<noteq> []"
                by (auto simp: available_slots_def)
              from body CritLoop Suc res Some False
              obtain i r1 where pk: "pick_slot (crittable_slots loc) r = Some (i, r1)"
                and at: "and_then
                         (if take 4 (crittable_slots loc ! i) = ''Ammo''
                          then f (AmmoExplosion k (crittable_slots loc ! i)) (crit_hit k loc i m) r1
                          else Some (Inr (crit_hit k loc i m, r1)))
                         (\<lambda>m2 r2. f (CritLoop k j) m2 r2) = Some (Inr (m', r'))"
                by (auto simp: Let_def split: Option.bind_splits)
              from pick_slot_sound[OF pk ne]
              have i: "i < length (crittable_slots loc)" by simp
              define m1 where "m1 = crit_hit k loc i m"
              note ch = crit_hit_accounts[OF wf Some i, folded m1_def]
              from at show ?thesis
              proof (cases rule: and_then_Some)
                case (1 e)
                then show ?thesis by simp
              next
                case (2 m2 r2)
                have A2: "well_formed m2 \<and> total_hp m2 \<le> total_hp m
                    \<and> (if take 4 (crittable_slots loc ! i) = ''Ammo''
                       then ammo_slots m2 < ammo_slots m
                       else ammo_slots m2 = ammo_slots m \<and> total_hp m2 = total_hp m)"
                proof (cases "take 4 (crittable_slots loc ! i) = ''Ammo''")
                  case True
                  with 2(1) have "f (AmmoExplosion k (crittable_slots loc ! i)) m1 r1 = Some (Inr (m2, r2))"
                    by (simp add: m1_def)
                  from IH'[OF this ch(1)] ch(2) ch(3)[OF True] True show ?thesis
                    by (simp add: accounted_cases damage_ok_def)
                next
                  case False
                  with 2(1) have "m2 = m1" by (simp add: m1_def)
                  with ch(1,2) ch(4)[OF False] False show ?thesis by simp
                qed
                from IH'[OF 2(2) conjunct1[OF A2]]
                have B: "well_formed m'" "ammo_slots m' \<le> ammo_slots m2" "total_hp m' \<le> total_hp m2"
                  "ammo_slots m' = ammo_slots m2 \<Longrightarrow> total_hp m' = total_hp m2"
                  by (simp_all add: accounted_cases damage_ok_def)
                have "ammo_slots m' \<le> ammo_slots m" "total_hp m' \<le> total_hp m"
                  using A2 B(2,3) by (auto split: if_splits)
                moreover have "total_hp m' = total_hp m" if "ammo_slots m' = ammo_slots m"
                  using A2 B(2,4) that by (auto split: if_splits)
                ultimately show ?thesis
                  using B(1) unfolding CritLoop by (simp add: accounted_cases)
              qed
            qed
          qed
        qed
      next
        case (AmmoExplosion k slot)
        show ?thesis
        proof (cases "map_of (locations m) k")
          case None
          with body AmmoExplosion res show ?thesis by simp
        next
          case (Some loc)
          obtain found ws1 where fa: "find_ammo k slot (weapons m) = (found, ws1)"
            by (cases "find_ammo k slot (weapons m)")
          have wf1: "well_formed (m\<lparr>weapons := ws1\<rparr>)" using wf by simp
          have l1: "map_of (locations (m\<lparr>weapons := ws1\<rparr>)) k = Some loc"
            using Some by simp
          show ?thesis
          proof (cases "has_case loc")
            case True
            with body AmmoExplosion res Some fa
            have "m' = contain_explosion k loc (m\<lparr>weapons := ws1\<rparr>)" by simp
            with contain_explosion_accounts[OF wf1 l1] show ?thesis
              unfolding AmmoExplosion by (simp add: accounted_cases)
          next
            case False
            with body AmmoExplosion res Some fa
            have "f (ApplyDamage k (if found \<le> 0 then 20 else found) False) (m\<lparr>weapons := ws1\<rparr>) r
                    = Some (Inr (m', r'))"
              by (simp add: Let_def)
            from IH'[OF this wf1] show ?thesis
              unfolding AmmoExplosion by (simp add: accounted_cases damage_ok_def)
          qed
        qed
      qed
    qed
  qed
  with assms(2,3) show ?thesis by simp
qed

lemma pick_slot_first_draw:
  assumes "slots ! (shd r mod length slots) \<noteq> ''DESTROYED''"
  shows "pick_slot slots r = Some (shd r mod length slots, stl r)"
  using assms by (subst pick_slot.simps) (simp add: randint_index)

lemma example_well_formed: "well_formed (example_mech engine)"
  by (simp add: well_formed_def example_mech_def new_location_def TRANSFER_MAP_def)

lemma example_LA_run:
  "(case apply_damage ''LA'' 20 False (example_mech ''standard'') r of
      Some (Inr (m', r')) \<Rightarrow>
        \<not> is_dead m' \<and> ammo_slots m' = ammo_slots (example_mech ''standard'') \<and> r' = r
    | _ \<Rightarrow> False)"
  apply (subst apply_damage_unfold)
  apply (simp add: example_mech_def new_location_def absorb_armor_def
      REAR_ARMOR_LOCATIONS_def and_then_def set_location_def mark_destroyed_def is_dead_def
      loc_destroyed_def Let_def transfer_to_def TRANSFER_MAP_def destroy_weapons_in_def mount_def)
  apply (subst apply_damage_unfold)
  apply (simp add: absorb_armor_def
      REAR_ARMOR_LOCATIONS_def and_then_def set_location_def mark_destroyed_def is_dead_def
      loc_destroyed_def Let_def transfer_to_def TRANSFER_MAP_def destroy_weapons_in_def)
  apply (subst apply_damage_unfold)
  apply (simp add: absorb_armor_def
      REAR_ARMOR_LOCATIONS_def and_then_def set_location_def mark_destroyed_def is_dead_def
      loc_destroyed_def Let_def transfer_to_def TRANSFER_MAP_def destroy_weapons_in_def ammo_slots_def
      example_mech_def new_location_def)
  done

lemma crit_roll_3_3:
  "roll_critical_hits (3 ## 3 ## 7 ## siterate Suc 0) = Inr (1, 7 ## siterate Suc 0)"
  by (simp add: roll_critical_hits_def roll_2d6_def randint_def CRIT_TABLE_def)

lemma example_LT_ammo_crit:
  "(case apply_damage ''LT'' 3 False (example_mech ''standard'') (3 ## 3 ## 7 ## siterate Suc 0) of
      Some (Inr (m', r')) \<Rightarrow>
        \<not> is_dead m' \<and> ammo_slots m' < ammo_slots (example_mech ''standard'')
        \<and> total_hp (example_mech ''standard'') - total_hp m' = 8
    | _ \<Rightarrow> False)"
proof -
  let ?slots = "[''Machine Gun'', ''Ammo Machine Gun'']"
  have pk: "pick_slot ?slots (7 ## siterate Suc 0) = Some (1, siterate Suc 0)"
    using pick_slot_first_draw[of ?slots "7 ## siterate Suc 0"]
    by (simp add: numeral_2_eq_2[symmetric])
  show ?thesis
    apply (subst apply_damage_unfold)
    apply (simp add: example_mech_def new_location_def absorb_armor_def
      REAR_ARMOR_LOCATIONS_def set_location_def Let_def crit_roll_3_3
      apply_crits_unfold available_slots_def crit_loop_Suc[of _ 0, simplified] pk)
    apply (simp add: crit_hit_def mount_def MACHINE_GUN_def AC20_def MEDIUM_LASER_def Let_def
      set_location_def ammo_explosion_unfold contain_explosion_def destroy_weapons_in_def
      and_then_def crit_loop_0 mark_destroyed_def is_dead_def loc_destroyed_def
      total_hp_def total_armor_def total_structure_def example_mech_def new_location_def
      ammo_slots_def)
    done
qed

text \<open>
  C6 (amended). If the named location is already destroyed, the whole damage goes
  unchanged to its transfer target, or is dropped if it has none. If the damage exceeds
  the armor pool and the structure of a location that is not yet destroyed, the location
  is wrecked and, unless the unit is dead at that point (then it goes inactive and the
  excess is dropped), the excess goes in full to its transfer target, by the same
  function, or is dropped if there is none. For the bookkeeping, on a well-formed unit
  and a damage that is not negative: the call returns when the random source is fair;
  when it returns normally it has added no hit point, it has removed at least the damage
  unless the unit is dead afterwards, and it has removed at most the damage unless a
  critical hit fell on an ammunition slot.
\<close>

theorem excess_damage_transfers:
  assumes "map_of (locations m) location_id = Some loc"
  shows "(Location.destroyed loc \<longrightarrow>
            apply_damage location_id dmg is_rear m r =
              (case transfer_to loc of
                 Some t \<Rightarrow> apply_damage t dmg False m r
               | None \<Rightarrow> Some (Inr (m, r))))
       \<and> (\<not> Location.destroyed loc \<and> 0 \<le> armor_pool location_id is_rear loc
            \<and> 0 \<le> current_structure loc
            \<and> armor_pool location_id is_rear loc + current_structure loc < dmg \<longrightarrow>
            apply_damage location_id dmg is_rear m r =
              (let m4 = (set_location location_id (wrecked location_id is_rear loc) m)
                          \<lparr>weapons := destroy_weapons_in location_id (weapons m)\<rparr>;
                   excess = dmg - armor_pool location_id is_rear loc - current_structure loc
               in if is_dead m4 then Some (Inr (m4\<lparr>active := False\<rparr>, r))
                  else (case transfer_to loc of
                          Some t \<Rightarrow> apply_damage t excess False m4 r
                        | None \<Rightarrow> Some (Inr (m4, r)))))
       \<and> (well_formed m \<and> 0 \<le> dmg \<longrightarrow>
            (fair r \<longrightarrow> (\<exists>res. apply_damage location_id dmg is_rear m r = Some res))
            \<and> (\<forall>m' r'. apply_damage location_id dmg is_rear m r = Some (Inr (m', r')) \<longrightarrow>
                  total_hp m' \<le> total_hp m
                  \<and> (\<not> is_dead m' \<longrightarrow> dmg \<le> total_hp m - total_hp m')
                  \<and> (ammo_slots m' = ammo_slots m \<longrightarrow> total_hp m - total_hp m' \<le> dmg)))"
proof -
  have A: "Location.destroyed loc \<longrightarrow>
            apply_damage location_id dmg is_rear m r =
              (case transfer_to loc of
                 Some t \<Rightarrow> apply_damage t dmg False m r
               | None \<Rightarrow> Some (Inr (m, r)))"
    using apply_damage_destroyed[OF assms] by simp
  have B: "\<not> Location.destroyed loc \<and> 0 \<le> armor_pool location_id is_rear loc
            \<and> 0 \<le> current_structure loc
            \<and> armor_pool location_id is_rear loc + current_structure loc < dmg \<longrightarrow>
            apply_damage location_id dmg is_rear m r =
              (let m4 = (set_location location_id (wrecked location_id is_rear loc) m)
                          \<lparr>weapons := destroy_weapons_in location_id (weapons m)\<rparr>;
                   excess = dmg - armor_pool location_id is_rear loc - current_structure loc
               in if is_dead m4 then Some (Inr (m4\<lparr>active := False\<rparr>, r))
                  else (case transfer_to loc of
                          Some t \<Rightarrow> apply_damage t excess False m4 r
                        | None \<Rightarrow> Some (Inr (m4, r))))"
  proof
  assume h: "\<not> Location.destroyed loc \<and> 0 \<le> armor_pool location_id is_rear loc
            \<and> 0 \<le> current_structure loc
            \<and> armor_pool location_id is_rear loc + current_structure loc < dmg"
  obtain loc1 d1 where aa: "absorb_armor location_id is_rear loc dmg = (loc1, d1)"
    by (cases "absorb_armor location_id is_rear loc dmg")
  from h have pool: "0 \<le> armor_pool location_id is_rear loc" "armor_pool location_id is_rear loc \<le> dmg"
    by simp_all
  from aa absorb_armor_excess[OF pool] have d1: "d1 = dmg - armor_pool location_id is_rear loc"
    by simp
  have s1: "current_structure loc1 = current_structure loc"
    using absorb_armor_fields[OF aa] by simp
  have p1: "0 < d1" and p2: "current_structure loc1 \<le> d1" and p3: "d1 - current_structure loc1 > 0"
    using h d1 s1 by simp_all
  have nd: "\<not> Location.destroyed loc"
    using h by simp
  have ex: "d1 - current_structure loc1 = dmg - armor_pool location_id is_rear loc - current_structure loc"
    using d1 s1 by simp
  note eq = apply_damage_depletes[OF assms nd aa p1 p2, of r]
  show "apply_damage location_id dmg is_rear m r =
              (let m4 = (set_location location_id (wrecked location_id is_rear loc) m)
                          \<lparr>weapons := destroy_weapons_in location_id (weapons m)\<rparr>;
                   excess = dmg - armor_pool location_id is_rear loc - current_structure loc
               in if is_dead m4 then Some (Inr (m4\<lparr>active := False\<rparr>, r))
                  else (case transfer_to loc of
                          Some t \<Rightarrow> apply_damage t excess False m4 r
                        | None \<Rightarrow> Some (Inr (m4, r))))"
    unfolding eq mark_destroyed_wrecked[OF pool aa] Let_def ex[symmetric]
    using p3 by simp
  qed
  have C: "well_formed m \<and> 0 \<le> dmg \<longrightarrow>
            (fair r \<longrightarrow> (\<exists>res. apply_damage location_id dmg is_rear m r = Some res))
            \<and> (\<forall>m' r'. apply_damage location_id dmg is_rear m r = Some (Inr (m', r')) \<longrightarrow>
                  total_hp m' \<le> total_hp m
                  \<and> (\<not> is_dead m' \<longrightarrow> dmg \<le> total_hp m - total_hp m')
                  \<and> (ammo_slots m' = ammo_slots m \<longrightarrow> total_hp m - total_hp m' \<le> dmg))"
  proof
  assume h: "well_formed m \<and> 0 \<le> dmg"
  show "(fair r \<longrightarrow> (\<exists>res. apply_damage location_id dmg is_rear m r = Some res))
            \<and> (\<forall>m' r'. apply_damage location_id dmg is_rear m r = Some (Inr (m', r')) \<longrightarrow>
                  total_hp m' \<le> total_hp m
                  \<and> (\<not> is_dead m' \<longrightarrow> dmg \<le> total_hp m - total_hp m')
                  \<and> (ammo_slots m' = ammo_slots m \<longrightarrow> total_hp m - total_hp m' \<le> dmg))"
  proof (intro conjI impI allI)
    assume "fair r"
    with damage_pipeline_returns_aux[of "live_slots m"] h well_formed_names_ok[of m]
    have "returns (apply_damage location_id dmg is_rear m r)" by simp
    then show "\<exists>res. apply_damage location_id dmg is_rear m r = Some res"
      by (simp add: returns_def)
  next
    fix m' r'
    assume "apply_damage location_id dmg is_rear m r = Some (Inr (m', r'))"
    then have "run (ApplyDamage location_id dmg is_rear) m r = Some (Inr (m', r'))"
      by (simp add: apply_damage_def)
    from run_accounted[OF this] h
    have acc: "accounted (ApplyDamage location_id dmg is_rear) m m'"
      by (simp add: damage_ok_def)
    from acc show "total_hp m' \<le> total_hp m" by (simp add: accounted_cases)
    from acc show "dmg \<le> total_hp m - total_hp m'" if "\<not> is_dead m'"
      using that by (simp add: accounted_cases)
    from acc show "total_hp m - total_hp m' \<le> dmg" if "ammo_slots m' = ammo_slots m"
      using that by (simp add: accounted_cases)
  qed
  qed
  show ?thesis by (rule conjI[OF A conjI[OF B C]])
qed

lemma example_mech_LA:
  "map_of (locations (example_mech engine)) ''LA''
     = Some (new_location ''LA'' 4 0 3 [''Medium Laser''] False)"
  by (simp add: example_mech_def)

theorem excess_damage_transfers_witness:
  "map_of (locations (example_mech ''standard'')) ''LA''
     = Some (new_location ''LA'' 4 0 3 [''Medium Laser''] False)
   \<and> well_formed (example_mech ''standard'') \<and> fair (siterate Suc 0)
   \<and> apply_damage ''LA'' 20 False (example_mech ''standard'') (siterate Suc 0)
     = apply_damage ''LT'' 13 False
         ((set_location ''LA''
             (wrecked ''LA'' False (new_location ''LA'' 4 0 3 [''Medium Laser''] False))
             (example_mech ''standard''))
          \<lparr>weapons := destroy_weapons_in ''LA'' (weapons (example_mech ''standard''))\<rparr>)
         (siterate Suc 0)
   \<and> (case apply_damage ''LA'' 20 False (example_mech ''standard'') (siterate Suc 0) of
        Some (Inr (m', r')) \<Rightarrow>
          \<not> is_dead m' \<and> ammo_slots m' = ammo_slots (example_mech ''standard'')
          \<and> total_hp (example_mech ''standard'') - total_hp m' = 20
      | _ \<Rightarrow> False)"
proof -
  let ?ex = "example_mech ''standard''"
  let ?r = "siterate Suc 0"
  let ?loc = "new_location ''LA'' 4 0 3 [''Medium Laser''] False"
  let ?m4 = "(set_location ''LA'' (wrecked ''LA'' False ?loc) ?ex)
          \<lparr>weapons := destroy_weapons_in ''LA'' (weapons ?ex)\<rparr>"
  note T = excess_damage_transfers[OF example_mech_LA, of 20 False "''standard''" ?r]
  have hyp: "\<not> Location.destroyed ?loc \<and> 0 \<le> armor_pool ''LA'' False ?loc
      \<and> 0 \<le> current_structure ?loc \<and> armor_pool ''LA'' False ?loc + current_structure ?loc < 20"
    by (simp add: new_location_def armor_pool_def)
  have alive: "\<not> is_dead ?m4"
    by (simp add: is_dead_def loc_destroyed_def set_location_def example_mech_def new_location_def)
  have tr: "transfer_to ?loc = Some ''LT''"
    by (simp add: transfer_to_def TRANSFER_MAP_def new_location_def)
  have ex: "20 - armor_pool ''LA'' False ?loc - current_structure ?loc = 13"
    by (simp add: new_location_def armor_pool_def)
  from T[THEN conjunct2, THEN conjunct1, THEN mp, OF hyp]
  have "apply_damage ''LA'' 20 False ?ex ?r =
              (let m4 = ?m4; excess = 20 - armor_pool ''LA'' False ?loc - current_structure ?loc
               in if is_dead m4 then Some (Inr (m4\<lparr>active := False\<rparr>, ?r))
                  else (case transfer_to ?loc of
                          Some t \<Rightarrow> apply_damage t excess False m4 ?r
                        | None \<Rightarrow> Some (Inr (m4, ?r))))"
    .
  then have step: "apply_damage ''LA'' 20 False ?ex ?r = apply_damage ''LT'' 13 False ?m4 ?r"
    unfolding Let_def ex tr using alive by simp
  have pre: "well_formed ?ex \<and> (0::int) \<le> 20"
    using example_well_formed by simp
  note C = T[THEN conjunct2, THEN conjunct2, THEN mp, OF pre]
  from C[THEN conjunct1, THEN mp, OF fair_counting]
  obtain res where res: "apply_damage ''LA'' 20 False ?ex ?r = Some res" by (elim exE)
  have total: "(case apply_damage ''LA'' 20 False ?ex ?r of
        Some (Inr (m', r')) \<Rightarrow>
          \<not> is_dead m' \<and> ammo_slots m' = ammo_slots ?ex \<and> total_hp ?ex - total_hp m' = 20
      | _ \<Rightarrow> False)"
  proof (cases res)
    case (Inl e)
    with res example_LA_run[of ?r] show ?thesis by simp
  next
    case (Inr p)
    obtain m' r' where p: "p = (m', r')" by (cases p)
    from res Inr p example_LA_run[of ?r]
    have run: "\<not> is_dead m'" "ammo_slots m' = ammo_slots ?ex" by simp_all
    from res Inr p have eq: "apply_damage ''LA'' 20 False ?ex ?r = Some (Inr (m', r'))" by simp
    from C[THEN conjunct2, rule_format, OF eq] run
    have "20 \<le> total_hp ?ex - total_hp m'" "total_hp ?ex - total_hp m' \<le> 20" by simp_all
    then have "total_hp ?ex - total_hp m' = 20" by simp
    with eq run show ?thesis by simp
  qed
  from example_mech_LA example_well_formed fair_counting step total show ?thesis
    by (intro conjI)
qed

text \<open>
  C6, as stated, fails. Death stops the chain: a 10-point hit on the left torso (armor 2,
  structure 5) of the example unit with an XL engine destroys the torso, which kills the
  unit, and the excess of 3 is dropped although the torso transfers to the center torso;
  7 hit points are removed and the center torso is untouched. And a critical hit on
  ammunition adds damage of its own: a 3-point hit on the left torso of the unit with a
  standard engine, followed by a critical hit on the machine-gun ammunition there,
  removes 8 hit points from a unit that is still alive.
\<close>

theorem excess_damage_dropped_counterexample:
  "transfer_to (new_location ''LT'' 2 1 5 [''Machine Gun'', ''Ammo Machine Gun''] True) = Some ''CT''
   \<and> (case apply_damage ''LT'' 10 False (example_mech ''xl'') (sconst 0) of
        Some (Inr (m', r')) \<Rightarrow>
          map_of (locations m') ''CT'' = map_of (locations (example_mech ''xl'')) ''CT''
          \<and> total_hp (example_mech ''xl'') - total_hp m' = 7
      | _ \<Rightarrow> False)
   \<and> (case apply_damage ''LT'' 3 False (example_mech ''standard'') (3 ## 3 ## 7 ## siterate Suc 0) of
        Some (Inr (m', r')) \<Rightarrow>
          \<not> is_dead m' \<and> ammo_slots m' < ammo_slots (example_mech ''standard'')
          \<and> total_hp (example_mech ''standard'') - total_hp m' = 8
      | _ \<Rightarrow> False)"
proof -
  have "apply_damage ''LT'' 10 False (example_mech ''xl'') (sconst 0)
      = Some (Inr ((mark_destroyed ''LT''
           ((new_location ''LT'' 2 1 5 [''Machine Gun'', ''Ammo Machine Gun''] True)
              \<lparr>current_armor := 0, current_structure := 0\<rparr>)
           (set_location ''LT''
              ((new_location ''LT'' 2 1 5 [''Machine Gun'', ''Ammo Machine Gun''] True)
                 \<lparr>current_armor := 0, current_structure := 0\<rparr>) (example_mech ''xl'')))
          \<lparr>active := False\<rparr>, sconst 0))"
    by (subst apply_damage_unfold)
      (simp add: example_mech_def new_location_def absorb_armor_def REAR_ARMOR_LOCATIONS_def
        and_then_def set_location_def mark_destroyed_def is_dead_def loc_destroyed_def Let_def)
  then have a: "transfer_to (new_location ''LT'' 2 1 5 [''Machine Gun'', ''Ammo Machine Gun''] True) = Some ''CT''
   \<and> (case apply_damage ''LT'' 10 False (example_mech ''xl'') (sconst 0) of
        Some (Inr (m', r')) \<Rightarrow>
          map_of (locations m') ''CT'' = map_of (locations (example_mech ''xl'')) ''CT''
          \<and> total_hp (example_mech ''xl'') - total_hp m' = 7
      | _ \<Rightarrow> False)"
    by (simp add: transfer_to_def TRANSFER_MAP_def new_location_def example_mech_def
        mark_destroyed_def set_location_def total_hp_def total_armor_def total_structure_def)
  from a example_LT_ammo_crit show ?thesis by (intro conjI) simp_all
qed

end
